theory Spec2Isabelle
  imports Main
begin

section \<open>Window geometry: resize handles and header dragging\<close>

text \<open>
  The rectangle of a window as the handlers read it from \<open>getBoundingClientRect\<close> and
  write it back through \<open>style.left/top/width/height\<close>. Pixel values are modelled as
  integers.
\<close>

record geometry =
  g_left :: int
  g_top :: int
  g_width :: int
  g_height :: int

text \<open>The eight handle classes created by \<open>addResizeHandles\<close>.\<close>

datatype resize_handle =
  Handle_n | Handle_s | Handle_e | Handle_w | Handle_ne | Handle_nw | Handle_se | Handle_sw

text \<open>
  The \<open>switch (handleClass)\<close> of \<open>setupResizeHandle\<close>: from the rectangle captured at
  mousedown and the pointer delta, the new width, height, left and top before the taskbar
  adjustment.
\<close>

fun resize_switch :: "resize_handle \<Rightarrow> geometry \<Rightarrow> int \<Rightarrow> int \<Rightarrow> geometry" where
  "resize_switch Handle_e st deltaX deltaY =
     st\<lparr>g_width := max 300 (g_width st + deltaX)\<rparr>"
| "resize_switch Handle_w st deltaX deltaY =
     (let newWidth = max 300 (g_width st - deltaX)
      in st\<lparr>g_width := newWidth, g_left := g_left st + (g_width st - newWidth)\<rparr>)"
| "resize_switch Handle_s st deltaX deltaY =
     st\<lparr>g_height := max 200 (g_height st + deltaY)\<rparr>"
| "resize_switch Handle_n st deltaX deltaY =
     (let newHeight = max 200 (g_height st - deltaY)
      in st\<lparr>g_height := newHeight, g_top := g_top st + (g_height st - newHeight)\<rparr>)"
| "resize_switch Handle_se st deltaX deltaY =
     st\<lparr>g_width := max 300 (g_width st + deltaX),
        g_height := max 200 (g_height st + deltaY)\<rparr>"
| "resize_switch Handle_sw st deltaX deltaY =
     (let newWidth = max 300 (g_width st - deltaX)
      in st\<lparr>g_width := newWidth,
            g_height := max 200 (g_height st + deltaY),
            g_left := g_left st + (g_width st - newWidth)\<rparr>)"
| "resize_switch Handle_ne st deltaX deltaY =
     (let newHeight = max 200 (g_height st - deltaY)
      in st\<lparr>g_width := max 300 (g_width st + deltaX),
            g_height := newHeight,
            g_top := g_top st + (g_height st - newHeight)\<rparr>)"
| "resize_switch Handle_nw st deltaX deltaY =
     (let newWidth = max 300 (g_width st - deltaX);
          newHeight = max 200 (g_height st - deltaY)
      in st\<lparr>g_width := newWidth,
            g_height := newHeight,
            g_left := g_left st + (g_width st - newWidth),
            g_top := g_top st + (g_height st - newHeight)\<rparr>)"

text \<open>
  The block after the switch: a window whose new top lies above the 40px taskbar is moved
  down to it and loses the difference in height, never below 200.
\<close>

definition taskbar_adjust :: "geometry \<Rightarrow> geometry" where
  "taskbar_adjust g =
     (let taskbarHeight = 40
      in if g_top g < taskbarHeight
         then (let adjustment = taskbarHeight - g_top g
               in g\<lparr>g_top := taskbarHeight,
                     g_height := max 200 (g_height g - adjustment)\<rparr>)
         else g)"

text \<open>
  One \<open>mousemove\<close> of a resize: \<open>st\<close> is the rectangle captured at mousedown,
  \<open>(startX, startY)\<close> the pointer at mousedown, \<open>(clientX, clientY)\<close> the pointer now.
  The result is the geometry written to the window's style.
\<close>

definition resize_mousemove ::
    "resize_handle \<Rightarrow> geometry \<Rightarrow> int \<times> int \<Rightarrow> int \<times> int \<Rightarrow> geometry" where
  "resize_mousemove h st start cur =
     (let deltaX = fst cur - fst start;
          deltaY = snd cur - snd start
      in taskbar_adjust (resize_switch h st deltaX deltaY))"

text \<open>
  A resize gesture: mousedown at \<open>start\<close> on a window with rectangle \<open>st\<close>, then the
  pointer positions of the successive \<open>mousemove\<close> events. Every move computes from
  the values captured at mousedown; the result is the list of geometries written, in
  order.
\<close>

definition resize_gesture ::
    "resize_handle \<Rightarrow> geometry \<Rightarrow> int \<times> int \<Rightarrow> (int \<times> int) list \<Rightarrow> geometry list" where
  "resize_gesture h st start moves = map (resize_mousemove h st start) moves"

text \<open>
  The animation-frame callback of \<open>setupRegularWindowDragging\<close>: only left and top are
  written, and only the top is constrained. \<open>g\<close> is the window before the write,
  \<open>startLeft\<close> and \<open>startTop\<close> the position captured at mousedown.
\<close>

definition drag_frame :: "geometry \<Rightarrow> int \<Rightarrow> int \<Rightarrow> int \<Rightarrow> int \<Rightarrow> geometry" where
  "drag_frame g startLeft startTop deltaX deltaY =
     (let newLeft = startLeft + deltaX;
          newTop = max 40 (startTop + deltaY)
      in g\<lparr>g_left := newLeft, g_top := newTop\<rparr>)"

text \<open>
  The \<open>mousemove\<close> handler of a header drag, run over the successive pointer positions.
  \<open>isDragging\<close> becomes true at the first move farther than 3px from the start in either
  axis and stays true; from then on every move schedules a frame. Each scheduled frame is
  taken to run (a frame cancelled by a later move only skips an intermediate write), so
  the result lists every geometry a drag can write, in order.
\<close>

fun drag_moves ::
    "bool \<Rightarrow> geometry \<Rightarrow> int \<times> int \<Rightarrow> int \<times> int \<Rightarrow> (int \<times> int) list \<Rightarrow> geometry list" where
  "drag_moves isDragging g start startPos [] = []"
| "drag_moves isDragging g start startPos (cur # rest) =
     (let deltaX = fst cur - fst start;
          deltaY = snd cur - snd start;
          isDragging' = (isDragging \<or> abs deltaX > 3 \<or> abs deltaY > 3)
      in if isDragging'
         then (let g' = drag_frame g (fst startPos) (snd startPos) deltaX deltaY
               in g' # drag_moves isDragging' g' start startPos rest)
         else drag_moves isDragging' g start startPos rest)"

text \<open>
  A drag gesture: mousedown at \<open>start\<close> on the header of a window with rectangle
  \<open>g\<close> (so \<open>startLeft\<close> and \<open>startTop\<close> are its left and top), then the moves.
\<close>

definition drag_gesture :: "geometry \<Rightarrow> int \<times> int \<Rightarrow> (int \<times> int) list \<Rightarrow> geometry list" where
  "drag_gesture g start moves = drag_moves False g start (g_left g, g_top g) moves"

section \<open>Mood tracker persistence\<close>

text \<open>
  Values as \<open>JSON.parse\<close> produces them. An object keeps its properties in insertion
  order, so it is an association list.
\<close>

datatype json =
  JNull | JBool bool | JNum int | JStr string | JArr "json list" | JObj "(string \<times> json) list"

text \<open>
  A string held by \<open>localStorage\<close>, classified by what the platform does with it: the
  empty string (falsy), a text that \<open>JSON.parse\<close> rejects, or a text that parses to
  the given value. \<open>JSON.stringify\<close> of a value is a text that parses back to it.
\<close>

datatype stored_text = Empty_text | Malformed_text | Json_text json

datatype js_error = SyntaxError | TypeError | QuotaExceededError

text \<open>
  The part of \<open>localStorage\<close> the mood tracker uses: the item under
  \<open>moodTrackerData\<close> (\<open>None\<close> when absent, so \<open>getItem\<close> returns null) and whether
  the store refuses writes (\<open>setItem\<close> throws).
\<close>

record storage =
  moodTrackerData :: "stored_text option"
  quota_full :: bool

definition JSON_parse :: "stored_text \<Rightarrow> js_error + json" where
  "JSON_parse t = (case t of Json_text v \<Rightarrow> Inr v | _ \<Rightarrow> Inl SyntaxError)"



text \<open>
  \<open>getMoodData\<close>: the body of the \<open>try\<close>, then the function with its \<open>catch\<close>,
  which returns the empty object.
\<close>

definition getMoodData_try :: "storage \<Rightarrow> js_error + json" where
  "getMoodData_try st =
     (case moodTrackerData st of
        None \<Rightarrow> Inr (JObj [])
      | Some Empty_text \<Rightarrow> Inr (JObj [])
      | Some data \<Rightarrow> JSON_parse data)"

definition getMoodData :: "storage \<Rightarrow> js_error + json" where
  "getMoodData st =
     (case getMoodData_try st of
        Inr v \<Rightarrow> Inr v
      | Inl error \<Rightarrow> Inr (JObj []))"










section \<open>Sticky notes\<close>

text \<open>
  A record of the \<open>sticky-notes\<close> array. \<open>note_id\<close> is the creation time
  (\<open>Date.now()\<close>), \<open>timestamp\<close> is absent on notes stored by older versions, and a
  note without a \<open>pinned\<close> property counts as not pinned.
\<close>

record sticky_note =
  note_id :: int
  note_type :: string
  content :: string
  textContent :: string
  note_date :: string
  lastUpdated :: string
  timestamp :: "int option"
  pinned :: bool

text \<open>A number property used as a condition: absent and 0 are falsy.\<close>

definition truthy :: "int option \<Rightarrow> bool" where
  "truthy t = (case t of None \<Rightarrow> False | Some v \<Rightarrow> v \<noteq> 0)"

text \<open>
  The first loop of \<open>loadStickyNotes\<close>: a note without a timestamp gets
  \<open>note.id || Date.now()\<close>.
\<close>

definition ensure_timestamp :: "int \<Rightarrow> sticky_note \<Rightarrow> sticky_note" where
  "ensure_timestamp now n =
     (if \<not> truthy (timestamp n)
      then n\<lparr>timestamp := Some (if note_id n \<noteq> 0 then note_id n else now)\<rparr>
      else n)"

text \<open>The value both comparators sort on: \<open>a.timestamp || a.id || 0\<close>.\<close>

definition sort_timestamp :: "sticky_note \<Rightarrow> int" where
  "sort_timestamp a =
     (if truthy (timestamp a) then the (timestamp a)
      else if note_id a \<noteq> 0 then note_id a else 0)"

text \<open>
  \<open>Array.prototype.sort\<close> with the comparator \<open>timestampB - timestampA\<close>: a stable
  sort into descending order of \<open>sort_timestamp\<close>.
\<close>

definition sort_newest_first :: "sticky_note list \<Rightarrow> sticky_note list" where
  "sort_newest_first ns = sort_key (\<lambda>n. - sort_timestamp n) ns"

record notes_view =
  pinnedNotes :: "sticky_note list"
  regularNotes :: "sticky_note list"
  saved :: "sticky_note list"

text \<open>
  \<open>loadStickyNotes\<close>, from the parsed \<open>sticky-notes\<close> array to the two groups it
  renders and the array it writes back. \<open>container\<close> says whether the element
  \<open>sticky-notes-container\<close> exists (without it the function returns at once) and
  \<open>now\<close> is \<open>Date.now()\<close>.
\<close>

definition loadStickyNotes :: "bool \<Rightarrow> int \<Rightarrow> sticky_note list \<Rightarrow> notes_view option" where
  "loadStickyNotes container now stickyNotes =
     (if \<not> container then None
      else
        (let stamped = map (ensure_timestamp now) stickyNotes;
             notes = filter (\<lambda>item. note_type item \<noteq> ''folder'') stamped;
             pinnedNotes = sort_newest_first (filter (\<lambda>n. pinned n) notes);
             regularNotes = sort_newest_first (filter (\<lambda>n. \<not> pinned n) notes)
         in Some \<lparr>pinnedNotes = pinnedNotes, regularNotes = regularNotes,
                  saved = pinnedNotes @ regularNotes\<rparr>))"

text \<open>\<open>precedes x y xs\<close>: \<open>y\<close> occurs in \<open>xs\<close> after the first \<open>x\<close>.\<close>

fun precedes :: "'a \<Rightarrow> 'a \<Rightarrow> 'a list \<Rightarrow> bool" where
  "precedes x y [] = False"
| "precedes x y (z # zs) = (if z = x then y \<in> set zs else precedes x y zs)"

section \<open>The window manager\<close>

subsection \<open>Elements and the state of \<open>PortfolioOS\<close>\<close>

text \<open>
  A window element of the document, with what the window manager reads and writes: the
  \<open>id\<close> property (empty when there is none), the attributes \<open>data-window\<close>,
  \<open>data-note-id\<close> and \<open>data-sticker-src\<close> (\<open>None\<close> when absent), the class list and the
  inline \<open>z-index\<close>. When no other source of an identifier applies, \<open>getWindowId\<close>
  generates \<open>window-<time>-<random>\<close> and stores it as the element's id, so that every
  later call returns it again; \<open>generated_id\<close> is that identifier, kept with the element
  from the start.
\<close>

record element =
  el_id :: string
  data_window :: "string option"
  data_note_id :: "string option"
  data_sticker_src :: "string option"
  classList :: "string list"
  z_index :: "int option"
  generated_id :: string

definition has_class :: "string \<Rightarrow> element \<Rightarrow> bool" where
  "has_class c e \<longleftrightarrow> c \<in> set (classList e)"

definition classList_add :: "string \<Rightarrow> element \<Rightarrow> element" where
  "classList_add c e = (if c \<in> set (classList e) then e else e\<lparr>classList := classList e @ [c]\<rparr>)"

definition classList_remove :: "string \<Rightarrow> element \<Rightarrow> element" where
  "classList_remove c e = e\<lparr>classList := removeAll c (classList e)\<rparr>"

text \<open>A dataset entry used as a condition: absent and empty are falsy.\<close>

definition present :: "string option \<Rightarrow> bool" where
  "present a = (case a of None \<Rightarrow> False | Some v \<Rightarrow> v \<noteq> [])"

definition getWindowId :: "element \<Rightarrow> string" where
  "getWindowId windowElement =
     (if el_id windowElement \<noteq> [] then el_id windowElement
      else if present (data_window windowElement) then the (data_window windowElement)
      else if present (data_note_id windowElement)
        then ''note-'' @ the (data_note_id windowElement)
      else if present (data_sticker_src windowElement)
        then ''sticker-'' @ the (data_sticker_src windowElement)
      else if has_class ''about-window'' windowElement then ''main-notebook''
      else if has_class ''skills-window'' windowElement then ''sticker-window''
      else if has_class ''contact-window'' windowElement then ''camera-window''
      else generated_id windowElement)"

text \<open>
  A JavaScript \<open>Set\<close> as the list of its members in insertion order. The members are
  application names, or null (\<open>None\<close>) where \<open>getAttribute('data-window')\<close> found no
  attribute.
\<close>

definition set_add :: "'a \<Rightarrow> 'a list \<Rightarrow> 'a list" where
  "set_add x xs = (if x \<in> set xs then xs else xs @ [x])"

definition set_delete :: "'a \<Rightarrow> 'a list \<Rightarrow> 'a list" where
  "set_delete x xs = removeAll x xs"

text \<open>
  The callbacks the window manager hands to \<open>setTimeout\<close>: the one of \<open>closeWindow\<close>
  (200ms) takes the application out of \<open>recentlyClosedWindows\<close>, the one of
  \<open>minimizeWindow\<close> (400ms) hides the element and takes the application out of
  \<open>activeWindows\<close>.
\<close>

datatype timer_callback =
  Release_closed "string option"
| Finish_minimize nat "string option"

text \<open>
  The state: the document's window elements in document order (an element is referred to
  by its position), the four fields of \<open>PortfolioOS\<close> that the window manager uses,
  whether an element matching \<open>.rename-popup, .delete-popup, .remove-note-popup\<close> is in
  the document, the pending timers with the time at which each is due, and the time in
  milliseconds. \<open>recentlyClosedWindows\<close> is created by the constructor, so the tests for
  its existence always succeed.
\<close>

record os_state =
  document :: "element list"
  activeWindows :: "string option list"
  windowZIndex :: int
  windowLayerOrder :: "string list"
  recentlyClosedWindows :: "string option list"
  popup_visible :: bool
  timers :: "(nat \<times> timer_callback) list"
  clock :: nat

definition initial_state :: "element list \<Rightarrow> os_state" where
  "initial_state doc =
     \<lparr>document = doc, activeWindows = [], windowZIndex = 1000, windowLayerOrder = [],
      recentlyClosedWindows = [], popup_visible = False, timers = [], clock = 0\<rparr>"

subsection \<open>Selectors\<close>

text \<open>\<open>.window.active, .note-editor-window.active, .sticker-preview-window\<close>\<close>

definition layer_selector :: "element \<Rightarrow> bool" where
  "layer_selector e \<longleftrightarrow>
     (has_class ''window'' e \<and> has_class ''active'' e) \<or>
     (has_class ''note-editor-window'' e \<and> has_class ''active'' e) \<or>
     has_class ''sticker-preview-window'' e"

text \<open>\<open>.window.active\<close>\<close>

definition active_window_selector :: "element \<Rightarrow> bool" where
  "active_window_selector e \<longleftrightarrow> has_class ''window'' e \<and> has_class ''active'' e"

text \<open>The positions of the elements that match a selector, in document order.\<close>

definition querySelectorAll :: "(element \<Rightarrow> bool) \<Rightarrow> element list \<Rightarrow> nat list" where
  "querySelectorAll sel doc = filter (\<lambda>i. sel (doc ! i)) [0..<length doc]"

text \<open>\<open>document.querySelector('[data-window="appName"]')\<close>: the first match, if any.\<close>

definition querySelector_data_window :: "string \<Rightarrow> element list \<Rightarrow> nat option" where
  "querySelector_data_window appName doc =
     (case querySelectorAll (\<lambda>e. data_window e = Some appName) doc of
        [] \<Rightarrow> None
      | i # _ \<Rightarrow> Some i)"

text \<open>A \<open>forEach\<close> over the document that may change each element, given its position.\<close>

definition for_each_element :: "(nat \<Rightarrow> element \<Rightarrow> element) \<Rightarrow> element list \<Rightarrow> element list" where
  "for_each_element f doc = map (\<lambda>(j, e). f j e) (enumerate 0 doc)"

subsection \<open>\<open>recalculateWindowLayers\<close>\<close>

text \<open>
  \<open>windowMap\<close>: from window id to element, filled in document order, so that of two
  elements with one id the later one stays.
\<close>

definition windowMap_of :: "element list \<Rightarrow> nat list \<Rightarrow> string \<Rightarrow> nat option" where
  "windowMap_of doc allWindows =
     map_of (rev (map (\<lambda>i. (getWindowId (doc ! i), i)) allWindows))"

text \<open>The loop that appends the windows not yet in the layer order, in document order.\<close>

fun add_new_windows :: "element list \<Rightarrow> nat list \<Rightarrow> string list \<Rightarrow> string list" where
  "add_new_windows doc [] layerOrder = layerOrder"
| "add_new_windows doc (win # rest) layerOrder =
     (let windowId = getWindowId (doc ! win)
      in add_new_windows doc rest
           (if windowId \<in> set layerOrder then layerOrder else layerOrder @ [windowId]))"

text \<open>
  The loop that applies the z-indices: the window at position \<open>index\<close> of the layer order
  gets \<open>baseZIndex + index * 10\<close>.
\<close>

fun apply_z_indices ::
    "(string \<Rightarrow> nat option) \<Rightarrow> int \<Rightarrow> string list \<Rightarrow> nat \<Rightarrow> element list \<Rightarrow> element list" where
  "apply_z_indices windowMap baseZIndex [] index doc = doc"
| "apply_z_indices windowMap baseZIndex (windowId # rest) index doc =
     (case windowMap windowId of
        Some j \<Rightarrow>
          apply_z_indices windowMap baseZIndex rest (Suc index)
            (doc[j := (doc ! j)\<lparr>z_index := Some (baseZIndex + int index * 10)\<rparr>])
      | None \<Rightarrow> apply_z_indices windowMap baseZIndex rest (Suc index) doc)"

definition recalculateWindowLayers :: "os_state \<Rightarrow> os_state" where
  "recalculateWindowLayers s =
     (if popup_visible s then s
      else
        (let baseZIndex = 100000;
             doc = document s;
             allWindows = querySelectorAll layer_selector doc;
             windowMap = windowMap_of doc allWindows;
             pruned = filter (\<lambda>windowId. windowMap windowId \<noteq> None) (windowLayerOrder s);
             layerOrder = add_new_windows doc allWindows pruned
         in s\<lparr>document := apply_z_indices windowMap baseZIndex layerOrder 0 doc,
               windowLayerOrder := layerOrder,
               windowZIndex := baseZIndex + int (length layerOrder) * 10\<rparr>))"

subsection \<open>Focus, open, close, minimize\<close>

text \<open>
  An operation that is handed a window element takes its position \<open>i\<close>; a position
  outside the document stands for null. \<open>bringWindowToFront\<close> and \<open>focusWindow\<close>
  return at once on null. \<open>closeWindow\<close> and \<open>minimizeWindow\<close> throw on their first
  statement, before they change anything, so they too leave the state as it is. Sounds,
  input focus, opacity and the positioning of a window's rectangle are not part of the
  state.
\<close>

definition bringWindowToFront :: "nat \<Rightarrow> bool \<Rightarrow> os_state \<Rightarrow> os_state" where
  "bringWindowToFront i isDuringDrag s =
     (if \<not> i < length (document s) then s
      else
        (let doc1 = (document s)[i := classList_add ''active'' (document s ! i)];
             windowId = getWindowId (doc1 ! i);
             s1 = s\<lparr>document := doc1,
                     windowLayerOrder := remove1 windowId (windowLayerOrder s) @ [windowId]\<rparr>;
             s2 = recalculateWindowLayers s1;
             doc3 = for_each_element
                      (\<lambda>j win. if layer_selector win \<and> j \<noteq> i
                                then classList_remove ''focused'' win else win)
                      (document s2);
             doc4 = doc3[i := classList_add ''focused'' (doc3 ! i)]
         in s2\<lparr>document := doc4\<rparr>))"

definition focusWindow :: "nat \<Rightarrow> os_state \<Rightarrow> os_state" where
  "focusWindow i s =
     (if \<not> i < length (document s) then s
      else
        (let appName = data_window (document s ! i)
         in if appName \<in> set (recentlyClosedWindows s) then s
            else
              (let s1 = bringWindowToFront i False s;
                   doc2 = for_each_element
                            (\<lambda>j w. if active_window_selector w
                                    then classList_remove ''focused'' w else w)
                            (document s1);
                   doc3 = doc2[i := classList_add ''focused'' (doc2 ! i)]
               in s1\<lparr>document := doc3\<rparr>)))"

definition openWindow :: "string \<Rightarrow> os_state \<Rightarrow> os_state" where
  "openWindow appName s =
     (case querySelector_data_window appName (document s) of
        None \<Rightarrow> s
      | Some i \<Rightarrow>
          if Some appName \<in> set (recentlyClosedWindows s) then s
          else if Some appName \<in> set (activeWindows s) then focusWindow i s
          else
            focusWindow i
              (s\<lparr>activeWindows := set_add (Some appName) (activeWindows s),
                 document := (document s)[i := classList_add ''active'' (document s ! i)]\<rparr>))"

definition closeWindow :: "nat \<Rightarrow> os_state \<Rightarrow> os_state" where
  "closeWindow i s =
     (if \<not> i < length (document s) then s
      else
        (let appName = data_window (document s ! i);
             windowId = getWindowId (document s ! i);
             s1 = s\<lparr>windowLayerOrder := remove1 windowId (windowLayerOrder s),
                     activeWindows := set_delete appName (activeWindows s),
                     document := (document s)[i := classList_remove ''active'' (document s ! i)]\<rparr>;
             s2 = recalculateWindowLayers s1
         in s2\<lparr>recentlyClosedWindows := set_add appName (recentlyClosedWindows s2),
               timers := timers s2 @ [(clock s2 + 200, Release_closed appName)]\<rparr>))"

definition minimizeWindow :: "nat \<Rightarrow> os_state \<Rightarrow> os_state" where
  "minimizeWindow i s =
     (if \<not> i < length (document s) then s
      else
        (let appName = data_window (document s ! i)
         in s\<lparr>timers := timers s @ [(clock s + 400, Finish_minimize i appName)]\<rparr>))"

text \<open>
  The click handler that \<open>setupStickerWindowControls\<close> puts on the close button of a
  sticker preview window: the window's id is taken out of the layer order, the layers are
  recalculated, and then the element is removed from the document.
\<close>

definition closeStickerWindow :: "nat \<Rightarrow> os_state \<Rightarrow> os_state" where
  "closeStickerWindow i s =
     (if \<not> i < length (document s) then s
      else
        (let windowId = getWindowId (document s ! i);
             s1 = recalculateWindowLayers
                    (s\<lparr>windowLayerOrder := remove1 windowId (windowLayerOrder s)\<rparr>)
         in s1\<lparr>document := take i (document s1) @ drop (Suc i) (document s1)\<rparr>))"

subsection \<open>Timers\<close>

fun run_timer :: "timer_callback \<Rightarrow> os_state \<Rightarrow> os_state" where
  "run_timer (Release_closed appName) s =
     s\<lparr>recentlyClosedWindows := set_delete appName (recentlyClosedWindows s)\<rparr>"
| "run_timer (Finish_minimize i appName) s =
     s\<lparr>document := (document s)[i := classList_remove ''active'' (document s ! i)],
       activeWindows := set_delete appName (activeWindows s)\<rparr>"

fun run_timers :: "(nat \<times> timer_callback) list \<Rightarrow> os_state \<Rightarrow> os_state" where
  "run_timers [] s = s"
| "run_timers ((due, callback) # rest) s = run_timers rest (run_timer callback s)"

text \<open>
  \<open>dt\<close> milliseconds pass with no other event: the timers that have become due run, the
  earliest first and those due together in the order they were set; a timer runs as soon
  as it is due.
\<close>

definition advance :: "nat \<Rightarrow> os_state \<Rightarrow> os_state" where
  "advance dt s =
     (let t = clock s + dt;
          due = filter (\<lambda>(d, c). d \<le> t) (timers s);
          later = filter (\<lambda>(d, c). \<not> d \<le> t) (timers s)
      in run_timers (sort_key fst due) (s\<lparr>clock := t, timers := later\<rparr>))"

text \<open>The ids of the windows that \<open>recalculateWindowLayers\<close> finds, in document order.\<close>

definition visible_ids :: "os_state \<Rightarrow> string list" where
  "visible_ids s = map (\<lambda>i. getWindowId (document s ! i)) (querySelectorAll layer_selector (document s))"

section \<open>Notions used in the properties\<close>

subsection \<open>Geometry\<close>

text \<open>The three bounds of the geometry clamp.\<close>

definition within_bounds :: "geometry \<Rightarrow> bool" where
  "within_bounds g \<longleftrightarrow> 300 \<le> g_width g \<and> 200 \<le> g_height g \<and> 40 \<le> g_top g"

subsection \<open>Windows and their z-indices\<close>

text \<open>
  The visible element that carries a window id (the entry of \<open>windowMap\<close>), and the
  z-index that window has.
\<close>

definition window_with_id :: "os_state \<Rightarrow> string \<Rightarrow> nat option" where
  "window_with_id s windowId =
     windowMap_of (document s) (querySelectorAll layer_selector (document s)) windowId"

definition zIndex_of :: "os_state \<Rightarrow> string \<Rightarrow> int option" where
  "zIndex_of s windowId =
     (case window_with_id s windowId of None \<Rightarrow> None | Some j \<Rightarrow> z_index (document s ! j))"

text \<open>
  What the window manager never changes in an element: everything but the z-index
  (\<open>forget_z\<close>), and everything but the z-index and the classes \<open>active\<close> and
  \<open>focused\<close> (\<open>static_part\<close>). Two documents are \<open>same_static\<close> when they hold the
  same elements up to those.
\<close>

definition forget_z :: "element \<Rightarrow> element" where
  "forget_z e = e\<lparr>z_index := None\<rparr>"

definition static_part :: "element \<Rightarrow> element" where
  "static_part e =
     e\<lparr>classList := filter (\<lambda>c. c \<noteq> ''active'' \<and> c \<noteq> ''focused'') (classList e),
       z_index := None\<rparr>"

definition same_static :: "element list \<Rightarrow> element list \<Rightarrow> bool" where
  "same_static d d' \<longleftrightarrow>
     length d = length d' \<and> (\<forall>j < length d. static_part (d ! j) = static_part (d' ! j))"

text \<open>
  The pieces of the operations that the proofs name: showing and hiding one element, the
  part of \<open>focusWindow\<close> that follows its call of \<open>bringWindowToFront\<close>, and the timers
  that \<open>advance\<close> runs.
\<close>

definition activate :: "nat \<Rightarrow> os_state \<Rightarrow> os_state" where
  "activate i s = s\<lparr>document := (document s)[i := classList_add ''active'' (document s ! i)]\<rparr>"

definition deactivate :: "nat \<Rightarrow> os_state \<Rightarrow> os_state" where
  "deactivate i s = s\<lparr>document := (document s)[i := classList_remove ''active'' (document s ! i)]\<rparr>"

definition refocus :: "nat \<Rightarrow> os_state \<Rightarrow> os_state" where
  "refocus i s =
     (let doc2 = for_each_element
                   (\<lambda>j w. if active_window_selector w then classList_remove ''focused'' w else w)
                   (document s)
      in s\<lparr>document := doc2[i := classList_add ''focused'' (doc2 ! i)]\<rparr>)"

definition due_timers :: "nat \<Rightarrow> os_state \<Rightarrow> (nat \<times> timer_callback) list" where
  "due_timers dt s = sort_key fst (filter (\<lambda>(d, c). d \<le> clock s + dt) (timers s))"

subsection \<open>Reachable states\<close>

text \<open>
  A document of static application windows: every element has the class \<open>window\<close>,
  none is a sticker preview, and no two have the same window id.
\<close>

definition wf_document :: "element list \<Rightarrow> bool" where
  "wf_document doc \<longleftrightarrow>
     distinct (map getWindowId doc) \<and>
     (\<forall>e \<in> set doc. has_class ''window'' e \<and> \<not> has_class ''sticker-preview-window'' e)"

text \<open>
  The states reached from such a document with no window shown, by opening, closing,
  focusing, bringing to front and minimizing windows, by popups appearing and
  disappearing, and by time passing. The flag says whether minimizing is among the
  operations.
\<close>

inductive reachable :: "bool \<Rightarrow> os_state \<Rightarrow> bool" for minimize :: bool where
  start: "wf_document doc \<Longrightarrow> \<forall>e \<in> set doc. \<not> has_class ''active'' e
          \<Longrightarrow> reachable minimize (initial_state doc)"
| op_open: "reachable minimize s \<Longrightarrow> reachable minimize (openWindow appName s)"
| op_close: "reachable minimize s \<Longrightarrow> reachable minimize (closeWindow i s)"
| op_focus: "reachable minimize s \<Longrightarrow> reachable minimize (focusWindow i s)"
| op_front: "reachable minimize s \<Longrightarrow> reachable minimize (bringWindowToFront i d s)"
| op_minimize: "minimize \<Longrightarrow> reachable minimize s \<Longrightarrow> reachable minimize (minimizeWindow i s)"
| op_time: "reachable minimize s \<Longrightarrow> reachable minimize (advance dt s)"
| op_popup: "reachable minimize s \<Longrightarrow> reachable minimize (s\<lparr>popup_visible := b\<rparr>)"

text \<open>
  The invariants: the layer order has no duplicates and holds every visible id
  (\<open>inv_cover\<close>); it holds nothing else, and no minimize is pending (\<open>inv_exact\<close>).
\<close>

definition no_pending_minimize :: "os_state \<Rightarrow> bool" where
  "no_pending_minimize s \<longleftrightarrow>
     (\<forall>t \<in> set (timers s). case snd t of Finish_minimize i k \<Rightarrow> False | _ \<Rightarrow> True)"

definition inv_cover :: "os_state \<Rightarrow> bool" where
  "inv_cover s \<longleftrightarrow>
     wf_document (document s) \<and> distinct (windowLayerOrder s) \<and>
     set (visible_ids s) \<subseteq> set (windowLayerOrder s)"

definition inv_exact :: "os_state \<Rightarrow> bool" where
  "inv_exact s \<longleftrightarrow>
     inv_cover s \<and> set (windowLayerOrder s) \<subseteq> set (visible_ids s) \<and> no_pending_minimize s"

subsection \<open>States of the whole program\<close>

text \<open>
  The states the program can be in, whatever windows it holds. The layer order is written
  only by \<open>bringWindowToFront\<close>, \<open>closeWindow\<close>, the close handler of a sticker preview
  and \<open>recalculateWindowLayers\<close>. Everything else the program does to its windows
  (\<open>createNoteWindow\<close> and \<open>showStickerModal\<close> appending an element that is shown at
  once, \<open>closeNoteWindow\<close> hiding and later removing one, the wallpaper picker, any change
  of a class or an attribute, any change of \<open>activeWindows\<close>) is the last rule: the
  document and \<open>activeWindows\<close> may become anything. The start is any document at all.
  Every state of the program is therefore among these.
\<close>

inductive program_reachable :: "os_state \<Rightarrow> bool" where
  boot: "program_reachable (initial_state doc)"
| do_open: "program_reachable s \<Longrightarrow> program_reachable (openWindow appName s)"
| do_close: "program_reachable s \<Longrightarrow> program_reachable (closeWindow i s)"
| do_focus: "program_reachable s \<Longrightarrow> program_reachable (focusWindow i s)"
| do_front: "program_reachable s \<Longrightarrow> program_reachable (bringWindowToFront i d s)"
| do_minimize: "program_reachable s \<Longrightarrow> program_reachable (minimizeWindow i s)"
| do_close_sticker: "program_reachable s \<Longrightarrow> program_reachable (closeStickerWindow i s)"
| do_time: "program_reachable s \<Longrightarrow> program_reachable (advance dt s)"
| do_popup: "program_reachable s \<Longrightarrow> program_reachable (s\<lparr>popup_visible := b\<rparr>)"
| do_dom: "program_reachable s
           \<Longrightarrow> program_reachable (s\<lparr>document := doc', activeWindows := active'\<rparr>)"

text \<open>
  Two facts about pending timers: none is due later than 400ms from now, and every
  application in \<open>recentlyClosedWindows\<close> still has its release pending.
\<close>

definition timers_bounded :: "os_state \<Rightarrow> bool" where
  "timers_bounded s \<longleftrightarrow> (\<forall>t \<in> set (timers s). fst t \<le> clock s + 400)"

definition closed_pending :: "os_state \<Rightarrow> bool" where
  "closed_pending s \<longleftrightarrow>
     (\<forall>k \<in> set (recentlyClosedWindows s). \<exists>d. (d, Release_closed k) \<in> set (timers s))"

subsection \<open>Sample states\<close>

text \<open>
  A static application window as it stands in the page before it is first opened, a page
  with the notebook and the projects window, and the state after opening the notebook
  and then the projects window.
\<close>

definition app_window :: "string \<Rightarrow> element" where
  "app_window appName =
     \<lparr>el_id = [], data_window = Some appName, data_note_id = None, data_sticker_src = None,
      classList = [''window''], z_index = None, generated_id = []\<rparr>"

definition two_windows :: "element list" where
  "two_windows = [app_window ''about'', app_window ''projects'']"

definition desk :: os_state where
  "desk = openWindow ''projects'' (openWindow ''about'' (initial_state two_windows))"

section \<open>Properties of the geometry handlers\<close>

lemma taskbar_adjust_top: "40 \<le> g_top (taskbar_adjust g)"
  by (simp add: taskbar_adjust_def Let_def)

lemma taskbar_adjust_width: "g_width (taskbar_adjust g) = g_width g"
  by (simp add: taskbar_adjust_def Let_def)

lemma taskbar_adjust_height:
  "200 \<le> g_height g \<Longrightarrow> 200 \<le> g_height (taskbar_adjust g)"
  by (simp add: taskbar_adjust_def Let_def)

lemma resize_switch_width:
  "300 \<le> g_width st \<Longrightarrow> 300 \<le> g_width (resize_switch h st dx dy)"
  by (cases h) (simp_all add: Let_def)

lemma resize_switch_height:
  "200 \<le> g_height st \<Longrightarrow> 200 \<le> g_height (resize_switch h st dx dy)"
  by (cases h) (simp_all add: Let_def)

lemma resize_mousemove_top: "40 \<le> g_top (resize_mousemove h st start cur)"
  by (simp add: resize_mousemove_def Let_def taskbar_adjust_top)

lemma resize_mousemove_bounds:
  assumes "300 \<le> g_width st" and "200 \<le> g_height st"
  shows "within_bounds (resize_mousemove h st start cur)"
  using assms
  by (simp add: within_bounds_def resize_mousemove_def Let_def taskbar_adjust_top
      taskbar_adjust_width taskbar_adjust_height resize_switch_width resize_switch_height)

lemma drag_frame_fields:
  "40 \<le> g_top (drag_frame g sl st dx dy)"
  "g_width (drag_frame g sl st dx dy) = g_width g"
  "g_height (drag_frame g sl st dx dy) = g_height g"
  by (simp_all add: drag_frame_def Let_def)

lemma drag_moves_fields:
  "x \<in> set (drag_moves d g start sp moves) \<Longrightarrow>
     40 \<le> g_top x \<and> g_width x = g_width g \<and> g_height x = g_height g"
proof (induction moves arbitrary: d g)
  case Nil
  then show ?case by simp
next
  case (Cons cur rest)
  let ?dx = "fst cur - fst start" and ?dy = "snd cur - snd start"
  let ?g' = "drag_frame g (fst sp) (snd sp) ?dx ?dy"
  show ?case
  proof (cases "d \<or> abs ?dx > 3 \<or> abs ?dy > 3")
    case True
    with Cons.prems have "x = ?g' \<or> x \<in> set (drag_moves True ?g' start sp rest)"
      by (auto simp: Let_def)
    then show ?thesis
    proof
      assume "x = ?g'"
      then show ?thesis by (simp add: drag_frame_fields)
    next
      assume "x \<in> set (drag_moves True ?g' start sp rest)"
      from Cons.IH [OF this] show ?thesis by (simp add: drag_frame_fields)
    qed
  next
    case False
    with Cons.prems have "x \<in> set (drag_moves False g start sp rest)"
      by (auto simp: Let_def)
    from Cons.IH [OF this] show ?thesis .
  qed
qed

text \<open>
  C5 (as the code has it). Every geometry written by a resize or by a header drag has its
  top at or below the 40px taskbar line (top \<ge> 40), whatever the window was before. The
  width and height minimums are applied only to the dimensions a handle changes, and a
  drag writes neither: on a window that starts at least 300 wide and 200 high, every
  intermediate and final update of a resize (any of the eight handles) or of a drag is
  at least 300 wide, at least 200 high and has top \<ge> 40.
\<close>

theorem geometry_clamp_from_valid_start:
  "(\<forall>g \<in> set (resize_gesture h st start rmoves) \<union> set (drag_gesture st start dmoves).
      40 \<le> g_top g) \<and>
   (300 \<le> g_width st \<and> 200 \<le> g_height st \<longrightarrow>
      (\<forall>g \<in> set (resize_gesture h st start rmoves) \<union> set (drag_gesture st start dmoves).
         within_bounds g))"
proof -
  have top_r: "40 \<le> g_top g" if "g \<in> set (resize_gesture h st start rmoves)" for g
    using that by (auto simp: resize_gesture_def resize_mousemove_top)
  have fields_d: "40 \<le> g_top g \<and> g_width g = g_width st \<and> g_height g = g_height st"
    if "g \<in> set (drag_gesture st start dmoves)" for g
    using that unfolding drag_gesture_def by (rule drag_moves_fields)
  have all_r: "within_bounds g"
    if "g \<in> set (resize_gesture h st start rmoves)" "300 \<le> g_width st" "200 \<le> g_height st"
    for g
    using that by (auto simp: resize_gesture_def resize_mousemove_bounds)
  show ?thesis
    using top_r fields_d all_r by (auto simp: within_bounds_def)
qed

theorem geometry_clamp_from_valid_start_witness:
  "resize_gesture Handle_nw \<lparr>g_left = 100, g_top = 60, g_width = 320, g_height = 240\<rparr>
       (500, 500) [(700, 400), (480, 700)]
     = [\<lparr>g_left = 120, g_top = 40, g_width = 300, g_height = 260\<rparr>,
        \<lparr>g_left = 80, g_top = 100, g_width = 340, g_height = 200\<rparr>] \<and>
   drag_gesture \<lparr>g_left = 100, g_top = 60, g_width = 320, g_height = 240\<rparr>
       (500, 500) [(502, 501), (510, 400)]
     = [\<lparr>g_left = 110, g_top = 40, g_width = 320, g_height = 240\<rparr>] \<and>
   within_bounds \<lparr>g_left = 120, g_top = 40, g_width = 300, g_height = 260\<rparr> \<and>
   within_bounds \<lparr>g_left = 80, g_top = 100, g_width = 340, g_height = 200\<rparr> \<and>
   within_bounds \<lparr>g_left = 110, g_top = 40, g_width = 320, g_height = 240\<rparr>"
proof -
  let ?st = "\<lparr>g_left = 100, g_top = 60, g_width = 320, g_height = 240\<rparr>"
  have r: "resize_gesture Handle_nw ?st (500, 500) [(700, 400), (480, 700)]
     = [\<lparr>g_left = 120, g_top = 40, g_width = 300, g_height = 260\<rparr>,
        \<lparr>g_left = 80, g_top = 100, g_width = 340, g_height = 200\<rparr>]"
    by (simp add: resize_gesture_def resize_mousemove_def taskbar_adjust_def Let_def)
  have d: "drag_gesture ?st (500, 500) [(502, 501), (510, 400)]
     = [\<lparr>g_left = 110, g_top = 40, g_width = 320, g_height = 240\<rparr>]"
    by (simp add: drag_gesture_def drag_frame_def Let_def)
  have "300 \<le> g_width ?st \<and> 200 \<le> g_height ?st" by simp
  with geometry_clamp_from_valid_start
         [of Handle_nw ?st "(500, 500)" "[(700, 400), (480, 700)]" "[(502, 501), (510, 400)]"]
  show ?thesis
    by (simp add: r d)
qed

text \<open>
  C5 as stated fails: a header drag writes only left and top, so a window that is 250 wide
  and 150 high before the drag is still 250 wide and 150 high after it.
\<close>

theorem geometry_clamp_counterexample:
  "drag_gesture \<lparr>g_left = 100, g_top = 100, g_width = 250, g_height = 150\<rparr> (0, 0) [(10, 10)]
     = [\<lparr>g_left = 110, g_top = 110, g_width = 250, g_height = 150\<rparr>] \<and>
   \<not> within_bounds \<lparr>g_left = 110, g_top = 110, g_width = 250, g_height = 150\<rparr>"
  by (simp add: drag_gesture_def drag_frame_def within_bounds_def Let_def)

text \<open>
  C6. With the south-east handle, a pointer delta of (+40, +30) on a window at
  left 100, top 100, 300 wide and 200 high gives left 100, top 100, width 340, height 230;
  and whenever the start width plus the horizontal delta is below 300, the width written
  is exactly 300.
\<close>

theorem south_east_resize:
  "resize_mousemove Handle_se \<lparr>g_left = 100, g_top = 100, g_width = 300, g_height = 200\<rparr>
       (x, y) (x + 40, y + 30)
     = \<lparr>g_left = 100, g_top = 100, g_width = 340, g_height = 230\<rparr> \<and>
   (g_width st + (fst cur - fst start) < 300 \<longrightarrow>
      g_width (resize_mousemove Handle_se st start cur) = 300)"
  by (simp add: resize_mousemove_def taskbar_adjust_def Let_def)

theorem south_east_resize_witness:
  "resize_mousemove Handle_se \<lparr>g_left = 100, g_top = 100, g_width = 300, g_height = 200\<rparr>
       (7, 9) (7 + 40, 9 + 30)
     = \<lparr>g_left = 100, g_top = 100, g_width = 340, g_height = 230\<rparr> \<and>
   g_width \<lparr>g_left = 100, g_top = 100, g_width = 340, g_height = 230\<rparr> + (fst (0, 50) - fst (47, 39)) < (300::int) \<and>
   g_width (resize_mousemove Handle_se \<lparr>g_left = 100, g_top = 100, g_width = 340, g_height = 230\<rparr>
       (47, 39) (0, 50)) = 300"
  using south_east_resize [of 7 9 "\<lparr>g_left = 100, g_top = 100, g_width = 340, g_height = 230\<rparr>"
      "(0, 50)" "(47, 39)"]
  by simp

section \<open>Properties of the mood tracker persistence\<close>



lemma getMoodData_returns: "\<exists>v. getMoodData st = Inr v"
  by (simp add: getMoodData_def split: sum.splits)




section \<open>Properties of the sticky notes view\<close>

lemma sorted_precedes:
  "sorted (map f xs) \<Longrightarrow> x \<in> set xs \<Longrightarrow> y \<in> set xs \<Longrightarrow> f x < (f y :: int)
     \<Longrightarrow> precedes x y xs"
proof (induction xs)
  case Nil
  then show ?case by simp
next
  case (Cons z zs)
  show ?case
  proof (cases "z = x")
    case True
    from Cons.prems have "y \<noteq> x" by auto
    with Cons.prems True show ?thesis by auto
  next
    case False
    with Cons.prems have xin: "x \<in> set zs" by simp
    from Cons.prems have le: "\<forall>w \<in> set zs. f z \<le> f w" by simp
    have "y \<noteq> z"
    proof
      assume "y = z"
      with le xin have "f y \<le> f x" by simp
      with Cons.prems show False by simp
    qed
    with Cons.prems have yin: "y \<in> set zs" by simp
    from Cons.prems have "sorted (map f zs)" by simp
    from Cons.IH [OF this xin yin] Cons.prems False show ?thesis by simp
  qed
qed

lemma sort_newest_first_precedes:
  assumes "a \<in> set ns" and "b \<in> set ns" and "sort_timestamp b < sort_timestamp a"
  shows "precedes a b (sort_newest_first ns)"
proof -
  have "sorted (map (\<lambda>n. - sort_timestamp n) (sort_newest_first ns))"
    by (simp add: sort_newest_first_def)
  moreover have "a \<in> set (sort_newest_first ns)" "b \<in> set (sort_newest_first ns)"
    using assms by (simp_all add: sort_newest_first_def)
  ultimately show ?thesis
    using assms(3) by (intro sorted_precedes [where f = "\<lambda>n. - sort_timestamp n"]) simp_all
qed

lemma ensure_timestamp_keeps:
  "pinned (ensure_timestamp now n) = pinned n"
  "note_type (ensure_timestamp now n) = note_type n"
  "note_id (ensure_timestamp now n) = note_id n"
  by (simp_all add: ensure_timestamp_def)

lemma sort_timestamp_ensure:
  "sort_timestamp (ensure_timestamp now n) =
     (if truthy (timestamp n) then the (timestamp n)
      else if note_id n \<noteq> 0 then note_id n else now)"
  by (auto simp: sort_timestamp_def ensure_timestamp_def truthy_def)

text \<open>
  C8. Two stored notes \<open>a\<close> and \<open>b\<close> that are both pinned (and are not folders) both
  appear in the pinned group, wherever they stand in the stored array, and neither appears
  in the regular group; the one with the greater timestamp comes first. The timestamp of
  a note that has none is its id, so for two such notes with ids \<open>0 < t1 < t2\<close> the
  note with id \<open>t2\<close> comes first.
\<close>

theorem pinned_notes_newest_first:
  assumes "loadStickyNotes container now stickyNotes = Some view"
    and "a \<in> set stickyNotes" and "b \<in> set stickyNotes"
    and "pinned a" and "pinned b"
    and "note_type a \<noteq> ''folder''" and "note_type b \<noteq> ''folder''"
  shows "ensure_timestamp now a \<in> set (pinnedNotes view) \<and>
         ensure_timestamp now b \<in> set (pinnedNotes view) \<and>
         ensure_timestamp now a \<notin> set (regularNotes view) \<and>
         ensure_timestamp now b \<notin> set (regularNotes view) \<and>
         (sort_timestamp (ensure_timestamp now a) < sort_timestamp (ensure_timestamp now b) \<longrightarrow>
            precedes (ensure_timestamp now b) (ensure_timestamp now a) (pinnedNotes view)) \<and>
         (\<not> truthy (timestamp a) \<and> \<not> truthy (timestamp b) \<and> 0 < note_id a \<and>
          note_id a < note_id b \<longrightarrow>
            precedes (ensure_timestamp now b) (ensure_timestamp now a) (pinnedNotes view))"
proof -
  let ?stamped = "map (ensure_timestamp now) stickyNotes"
  let ?notes = "filter (\<lambda>item. note_type item \<noteq> ''folder'') ?stamped"
  let ?pin = "filter (\<lambda>n. pinned n) ?notes"
  let ?a = "ensure_timestamp now a" and ?b = "ensure_timestamp now b"
  from assms(1) have pv: "pinnedNotes view = sort_newest_first ?pin"
    and rv: "regularNotes view = sort_newest_first (filter (\<lambda>n. \<not> pinned n) ?notes)"
    by (auto simp: loadStickyNotes_def Let_def split: if_splits)
  have ain: "?a \<in> set ?pin" and bin: "?b \<in> set ?pin"
    using assms(2-7) by (auto simp: ensure_timestamp_keeps)
  have in_p: "?a \<in> set (pinnedNotes view)" "?b \<in> set (pinnedNotes view)"
    using ain bin by (simp_all add: pv sort_newest_first_def)
  have not_r: "?a \<notin> set (regularNotes view)" "?b \<notin> set (regularNotes view)"
    using assms(4,5) by (simp_all add: rv sort_newest_first_def ensure_timestamp_keeps)
  have ord: "precedes ?b ?a (pinnedNotes view)"
    if "sort_timestamp ?a < sort_timestamp ?b"
    unfolding pv using bin ain that by (rule sort_newest_first_precedes)
  have ids: "sort_timestamp ?a < sort_timestamp ?b"
    if "\<not> truthy (timestamp a) \<and> \<not> truthy (timestamp b) \<and> 0 < note_id a \<and>
        note_id a < note_id b"
    using that by (simp add: sort_timestamp_ensure)
  show ?thesis
    using in_p not_r ord ids by blast
qed

theorem pinned_notes_newest_first_witness:
  "loadStickyNotes True 5000
      [\<lparr>note_id = 1000, note_type = ''note'', content = ''x'', textContent = ''x'', note_date = ''d'', lastUpdated = ''d'', timestamp = None, pinned = True\<rparr>,
       \<lparr>note_id = 3000, note_type = ''note'', content = ''x'', textContent = ''x'', note_date = ''d'', lastUpdated = ''d'', timestamp = Some 3001, pinned = False\<rparr>,
       \<lparr>note_id = 2000, note_type = ''note'', content = ''x'', textContent = ''x'', note_date = ''d'', lastUpdated = ''d'', timestamp = None, pinned = True\<rparr>]
     = Some \<lparr>pinnedNotes =
                [\<lparr>note_id = 2000, note_type = ''note'', content = ''x'', textContent = ''x'', note_date = ''d'', lastUpdated = ''d'', timestamp = Some 2000, pinned = True\<rparr>,
                 \<lparr>note_id = 1000, note_type = ''note'', content = ''x'', textContent = ''x'', note_date = ''d'', lastUpdated = ''d'', timestamp = Some 1000, pinned = True\<rparr>],
              regularNotes =
                [\<lparr>note_id = 3000, note_type = ''note'', content = ''x'', textContent = ''x'', note_date = ''d'', lastUpdated = ''d'', timestamp = Some 3001, pinned = False\<rparr>],
              saved =
                [\<lparr>note_id = 2000, note_type = ''note'', content = ''x'', textContent = ''x'', note_date = ''d'', lastUpdated = ''d'', timestamp = Some 2000, pinned = True\<rparr>,
                 \<lparr>note_id = 1000, note_type = ''note'', content = ''x'', textContent = ''x'', note_date = ''d'', lastUpdated = ''d'', timestamp = Some 1000, pinned = True\<rparr>,
                 \<lparr>note_id = 3000, note_type = ''note'', content = ''x'', textContent = ''x'', note_date = ''d'', lastUpdated = ''d'', timestamp = Some 3001, pinned = False\<rparr>]\<rparr> \<and>
   precedes \<lparr>note_id = 2000, note_type = ''note'', content = ''x'', textContent = ''x'', note_date = ''d'', lastUpdated = ''d'', timestamp = Some 2000, pinned = True\<rparr>
     \<lparr>note_id = 1000, note_type = ''note'', content = ''x'', textContent = ''x'', note_date = ''d'', lastUpdated = ''d'', timestamp = Some 1000, pinned = True\<rparr>
     [\<lparr>note_id = 2000, note_type = ''note'', content = ''x'', textContent = ''x'', note_date = ''d'', lastUpdated = ''d'', timestamp = Some 2000, pinned = True\<rparr>,
      \<lparr>note_id = 1000, note_type = ''note'', content = ''x'', textContent = ''x'', note_date = ''d'', lastUpdated = ''d'', timestamp = Some 1000, pinned = True\<rparr>]"
proof -
  let ?a = "\<lparr>note_id = 1000, note_type = ''note'', content = ''x'', textContent = ''x'', note_date = ''d'', lastUpdated = ''d'', timestamp = None, pinned = True\<rparr>"
  let ?b = "\<lparr>note_id = 2000, note_type = ''note'', content = ''x'', textContent = ''x'', note_date = ''d'', lastUpdated = ''d'', timestamp = None, pinned = True\<rparr>"
  let ?c = "\<lparr>note_id = 3000, note_type = ''note'', content = ''x'', textContent = ''x'', note_date = ''d'', lastUpdated = ''d'', timestamp = Some 3001, pinned = False\<rparr>"
  let ?a' = "\<lparr>note_id = 1000, note_type = ''note'', content = ''x'', textContent = ''x'', note_date = ''d'', lastUpdated = ''d'', timestamp = Some 1000, pinned = True\<rparr>"
  let ?b' = "\<lparr>note_id = 2000, note_type = ''note'', content = ''x'', textContent = ''x'', note_date = ''d'', lastUpdated = ''d'', timestamp = Some 2000, pinned = True\<rparr>"
  let ?view = "\<lparr>pinnedNotes = [?b', ?a'], regularNotes = [?c], saved = [?b', ?a', ?c]\<rparr>"
  have ea: "ensure_timestamp 5000 ?a = ?a'" and eb: "ensure_timestamp 5000 ?b = ?b'"
    and ec: "ensure_timestamp 5000 ?c = ?c"
    by (simp_all add: ensure_timestamp_def truthy_def)
  have st: "sort_timestamp ?a' = 1000" "sort_timestamp ?b' = 2000" "sort_timestamp ?c = 3001"
    by (simp_all add: sort_timestamp_def truthy_def)
  have run: "loadStickyNotes True 5000 [?a, ?c, ?b] = Some ?view"
    by (simp add: loadStickyNotes_def Let_def ea eb ec sort_newest_first_def st)
  have "precedes ?b' ?a' (pinnedNotes ?view)"
    using pinned_notes_newest_first [OF run, of ?a ?b]
    by (simp add: ea eb truthy_def)
  then show ?thesis using run by simp
qed

section \<open>Properties of the window manager\<close>

subsection \<open>Recalculation\<close>

lemma getWindowId_forget_z [simp]: "getWindowId (forget_z e) = getWindowId e"
  by (simp add: forget_z_def getWindowId_def has_class_def)

lemma layer_selector_forget_z [simp]: "layer_selector (forget_z e) = layer_selector e"
  by (simp add: forget_z_def layer_selector_def has_class_def)

lemma forget_z_z_update [simp]: "forget_z (e\<lparr>z_index := z\<rparr>) = forget_z e"
  by (simp add: forget_z_def)

lemma map_update_same:
  "f y = f (xs ! k) \<Longrightarrow> map f (xs[k := y]) = map f xs"
  by (metis list_update_beyond list_update_id map_update not_le_imp_less nth_map length_map)

lemma filter_indices: "map ((!) xs) (filter (\<lambda>i. P (xs ! i)) [0..<length xs]) = filter P xs"
proof -
  have "filter P xs = filter P (map ((!) xs) [0..<length xs])" by (simp add: map_nth)
  also have "\<dots> = map ((!) xs) (filter (P \<circ> (!) xs) [0..<length xs])" by (simp add: filter_map)
  finally show ?thesis by (simp add: comp_def)
qed

lemma visible_ids_alt: "visible_ids s = map getWindowId (filter layer_selector (document s))"
  unfolding visible_ids_def querySelectorAll_def
  using filter_indices [of "document s" layer_selector, symmetric] by (simp add: comp_def)

lemma length_apply_z_indices [simp]:
  "length (apply_z_indices wm b ids idx doc) = length doc"
  by (induction ids arbitrary: idx doc) (auto split: option.splits)

lemma forget_z_apply_z_indices:
  "map forget_z (apply_z_indices wm b ids idx doc) = map forget_z doc"
  by (induction ids arbitrary: idx doc) (auto split: option.splits simp: map_update_same)

lemma apply_z_indices_untouched:
  "\<forall>w \<in> set ids. wm w \<noteq> Some j \<Longrightarrow> apply_z_indices wm b ids idx doc ! j = doc ! j"
  by (induction ids arbitrary: idx doc) (auto split: option.splits)

lemma apply_z_indices_nth:
  assumes "distinct ids"
    and "\<And>a c k. a \<in> set ids \<Longrightarrow> c \<in> set ids \<Longrightarrow> wm a = Some k \<Longrightarrow> wm c = Some k \<Longrightarrow> a = c"
    and "p < length ids" and "wm (ids ! p) = Some j" and "j < length doc"
  shows "z_index (apply_z_indices wm b ids idx doc ! j) = Some (b + int (idx + p) * 10)"
  using assms
proof (induction ids arbitrary: idx doc p)
  case Nil
  then show ?case by simp
next
  case (Cons x xs)
  show ?case
  proof (cases p)
    case 0
    with Cons.prems have wx: "wm x = Some j" by simp
    have "\<forall>w \<in> set xs. wm w \<noteq> Some j"
    proof
      fix w assume "w \<in> set xs"
      with Cons.prems(1) have "w \<noteq> x" by auto
      with Cons.prems(2) [of w x j] \<open>w \<in> set xs\<close> wx show "wm w \<noteq> Some j" by auto
    qed
    then show ?thesis
      using wx 0 Cons.prems(5) by (simp add: apply_z_indices_untouched)
  next
    case (Suc p')
    from Cons.prems have d: "distinct xs" by simp
    have inj: "\<And>a c k. a \<in> set xs \<Longrightarrow> c \<in> set xs \<Longrightarrow> wm a = Some k \<Longrightarrow> wm c = Some k \<Longrightarrow> a = c"
      using Cons.prems(2) by simp
    from Cons.prems Suc have p': "p' < length xs" and w: "wm (xs ! p') = Some j" by simp_all
    have step: "z_index (apply_z_indices wm b xs (Suc idx) d' ! j) = Some (b + int (Suc idx + p') * 10)"
      if "j < length d'" for d'
    proof (rule Cons.IH)
      show "distinct xs" by (rule d)
      show "\<And>a c k. a \<in> set xs \<Longrightarrow> c \<in> set xs \<Longrightarrow> wm a = Some k \<Longrightarrow> wm c = Some k \<Longrightarrow> a = c"
        using inj by blast
      show "p' < length xs" by (rule p')
      show "wm (xs ! p') = Some j" by (rule w)
      show "j < length d'" by (rule that)
    qed
    show ?thesis
    proof (cases "wm x")
      case None
      with step [OF Cons.prems(5)] Suc show ?thesis by simp
    next
      case (Some k)
      let ?doc = "doc[k := (doc ! k)\<lparr>z_index := Some (b + int idx * 10)\<rparr>]"
      have "j < length ?doc" using Cons.prems(5) by simp
      from step [OF this] Some Suc show ?thesis by simp
    qed
  qed
qed

lemma querySelectorAll_set:
  "set (querySelectorAll sel doc) = {i. i < length doc \<and> sel (doc ! i)}"
  by (auto simp: querySelectorAll_def)

lemma querySelectorAll_distinct [simp]: "distinct (querySelectorAll sel doc)"
  by (simp add: querySelectorAll_def)

lemma querySelectorAll_cong:
  assumes "map f doc = map f doc'" and "\<And>e. sel (f e) = sel e"
  shows "querySelectorAll sel doc = querySelectorAll sel doc'"
proof -
  from assms(1) have len: "length doc = length doc'" by (metis length_map)
  have "sel (doc ! i) = sel (doc' ! i)" if "i < length doc" for i
  proof -
    have "f (doc ! i) = f (doc' ! i)"
      using assms(1) that len by (metis nth_map)
    then show ?thesis using assms(2) by metis
  qed
  then show ?thesis
    unfolding querySelectorAll_def len [symmetric] by (intro filter_cong) auto
qed

lemma getWindowId_nth_cong:
  assumes "map forget_z doc = map forget_z doc'" and "i < length doc"
  shows "getWindowId (doc ! i) = getWindowId (doc' ! i)"
proof -
  from assms(1) have len: "length doc = length doc'" by (metis length_map)
  have "forget_z (doc ! i) = forget_z (doc' ! i)"
    using assms len by (metis nth_map)
  then show ?thesis by (metis getWindowId_forget_z)
qed

lemma windowMap_of_cong:
  assumes "map forget_z doc = map forget_z doc'"
  shows "windowMap_of doc (querySelectorAll layer_selector doc)
       = windowMap_of doc' (querySelectorAll layer_selector doc')"
proof -
  have q: "querySelectorAll layer_selector doc = querySelectorAll layer_selector doc'"
    using assms by (rule querySelectorAll_cong) simp
  have "map (\<lambda>i. (getWindowId (doc ! i), i)) (querySelectorAll layer_selector doc)
      = map (\<lambda>i. (getWindowId (doc' ! i), i)) (querySelectorAll layer_selector doc)"
    by (intro map_cong refl) (auto simp: querySelectorAll_set getWindowId_nth_cong [OF assms])
  then show ?thesis unfolding windowMap_of_def q [symmetric] by (simp only:)
qed

lemma visible_ids_cong:
  assumes "map forget_z (document s) = map forget_z (document t)"
  shows "visible_ids s = visible_ids t"
proof -
  have q: "querySelectorAll layer_selector (document s) = querySelectorAll layer_selector (document t)"
    using assms by (rule querySelectorAll_cong) simp
  show ?thesis
    unfolding visible_ids_def q [symmetric]
    by (intro map_cong refl) (auto simp: querySelectorAll_set getWindowId_nth_cong [OF assms])
qed

lemma windowMap_of_Some:
  "windowMap_of doc ws w = Some j \<Longrightarrow> j \<in> set ws \<and> getWindowId (doc ! j) = w"
  by (auto simp: windowMap_of_def dest!: map_of_SomeD)

lemma windowMap_of_None_iff:
  "windowMap_of doc ws w = None \<longleftrightarrow> w \<notin> set (map (\<lambda>i. getWindowId (doc ! i)) ws)"
  by (simp add: windowMap_of_def map_of_eq_None_iff image_image)

lemma windowMap_of_distinct:
  assumes "distinct (map (\<lambda>i. getWindowId (doc ! i)) ws)" and "j \<in> set ws"
  shows "windowMap_of doc ws (getWindowId (doc ! j)) = Some j"
proof -
  let ?al = "rev (map (\<lambda>i. (getWindowId (doc ! i), i)) ws)"
  have "map fst ?al = rev (map (\<lambda>i. getWindowId (doc ! i)) ws)"
    by (simp add: rev_map comp_def)
  with assms(1) have "distinct (map fst ?al)" by simp
  moreover have "(getWindowId (doc ! j), j) \<in> set ?al" using assms(2) by auto
  ultimately show ?thesis unfolding windowMap_of_def by (rule map_of_is_SomeI)
qed

lemma set_add_new_windows:
  "set (add_new_windows doc ws ord) = set ord \<union> (\<lambda>i. getWindowId (doc ! i)) ` set ws"
  by (induction ws arbitrary: ord) (auto simp: Let_def)

lemma distinct_add_new_windows:
  "distinct ord \<Longrightarrow> distinct (add_new_windows doc ws ord)"
  by (induction ws arbitrary: ord) (auto simp: Let_def)

lemma add_new_windows_known:
  "\<forall>i \<in> set ws. getWindowId (doc ! i) \<in> set ord \<Longrightarrow> add_new_windows doc ws ord = ord"
  by (induction ws arbitrary: ord) (auto simp: Let_def)

lemma recalculate_popup: "popup_visible s \<Longrightarrow> recalculateWindowLayers s = s"
  by (simp add: recalculateWindowLayers_def)

lemma recalculate_order:
  "\<not> popup_visible s \<Longrightarrow>
   windowLayerOrder (recalculateWindowLayers s) =
     add_new_windows (document s) (querySelectorAll layer_selector (document s))
       (filter (\<lambda>w. w \<in> set (visible_ids s)) (windowLayerOrder s))"
  by (simp add: recalculateWindowLayers_def Let_def windowMap_of_None_iff visible_ids_def
      del: not_None_eq)

lemma recalculate_document:
  "\<not> popup_visible s \<Longrightarrow>
   document (recalculateWindowLayers s) =
     apply_z_indices (windowMap_of (document s) (querySelectorAll layer_selector (document s)))
       100000 (windowLayerOrder (recalculateWindowLayers s)) 0 (document s)"
  by (simp add: recalculateWindowLayers_def Let_def)

lemma recalculate_set_order:
  "\<not> popup_visible s \<Longrightarrow>
   set (windowLayerOrder (recalculateWindowLayers s)) = set (visible_ids s)"
  by (auto simp: recalculate_order set_add_new_windows visible_ids_def)

lemma recalculate_distinct_order:
  "distinct (windowLayerOrder s) \<Longrightarrow> distinct (windowLayerOrder (recalculateWindowLayers s))"
  by (cases "popup_visible s")
     (simp_all add: recalculate_order distinct_add_new_windows, simp add: recalculateWindowLayers_def)

lemma recalculate_forget_z:
  "map forget_z (document (recalculateWindowLayers s)) = map forget_z (document s)"
  by (cases "popup_visible s")
     (simp_all add: recalculate_document forget_z_apply_z_indices, simp add: recalculateWindowLayers_def)

lemma recalculate_length [simp]:
  "length (document (recalculateWindowLayers s)) = length (document s)"
  using recalculate_forget_z [of s] by (metis length_map)

lemma recalculate_visible_ids [simp]:
  "visible_ids (recalculateWindowLayers s) = visible_ids s"
  by (rule visible_ids_cong) (rule recalculate_forget_z)

lemma recalculate_fields [simp]:
  "activeWindows (recalculateWindowLayers s) = activeWindows s"
  "recentlyClosedWindows (recalculateWindowLayers s) = recentlyClosedWindows s"
  "popup_visible (recalculateWindowLayers s) = popup_visible s"
  "timers (recalculateWindowLayers s) = timers s"
  "clock (recalculateWindowLayers s) = clock s"
  by (simp_all add: recalculateWindowLayers_def Let_def)

lemma recalculate_zIndex_at:
  assumes np: "\<not> popup_visible s" and d: "distinct (windowLayerOrder s)"
    and p: "p < length (windowLayerOrder (recalculateWindowLayers s))"
  shows "zIndex_of (recalculateWindowLayers s) (windowLayerOrder (recalculateWindowLayers s) ! p)
           = Some (100000 + int p * 10)"
proof -
  let ?s' = "recalculateWindowLayers s"
  let ?ord = "windowLayerOrder ?s'"
  let ?ws = "querySelectorAll layer_selector (document s)"
  let ?wm = "windowMap_of (document s) ?ws"
  have wm': "window_with_id ?s' = ?wm"
    unfolding window_with_id_def
    by (rule windowMap_of_cong) (rule recalculate_forget_z)
  have "?ord ! p \<in> set ?ord" using p by simp
  then have "?ord ! p \<in> set (visible_ids s)" using np by (simp add: recalculate_set_order)
  then have "?wm (?ord ! p) \<noteq> None"
    by (simp add: windowMap_of_None_iff visible_ids_def)
  then obtain j where j: "?wm (?ord ! p) = Some j" by auto
  then have jl: "j < length (document s)"
    using windowMap_of_Some [OF j] by (simp add: querySelectorAll_set)
  have "z_index (apply_z_indices ?wm 100000 ?ord 0 (document s) ! j) = Some (100000 + int (0 + p) * 10)"
  proof (rule apply_z_indices_nth)
    show "distinct ?ord" using d by (rule recalculate_distinct_order)
    show "\<And>a c k. a \<in> set ?ord \<Longrightarrow> c \<in> set ?ord \<Longrightarrow> ?wm a = Some k \<Longrightarrow> ?wm c = Some k \<Longrightarrow> a = c"
      using windowMap_of_Some by metis
    show "p < length ?ord" by (rule p)
    show "?wm (?ord ! p) = Some j" by (rule j)
    show "j < length (document s)" by (rule jl)
  qed
  then have "z_index (document ?s' ! j) = Some (100000 + int p * 10)"
    using np by (simp add: recalculate_document)
  then show ?thesis by (simp add: zIndex_of_def wm' j)
qed

lemma recalculate_visible_zIndex:
  assumes np: "\<not> popup_visible s" and d: "distinct (windowLayerOrder s)"
    and dv: "distinct (visible_ids s)"
    and j: "j < length (document s)" "layer_selector (document (recalculateWindowLayers s) ! j)"
  shows "\<exists>p < length (windowLayerOrder (recalculateWindowLayers s)).
           windowLayerOrder (recalculateWindowLayers s) ! p = getWindowId (document s ! j) \<and>
           z_index (document (recalculateWindowLayers s) ! j) = Some (100000 + int p * 10)"
proof -
  let ?s' = "recalculateWindowLayers s"
  let ?ord = "windowLayerOrder ?s'"
  let ?ws = "querySelectorAll layer_selector (document s)"
  have q: "querySelectorAll layer_selector (document ?s') = ?ws"
    by (rule querySelectorAll_cong [OF recalculate_forget_z]) simp
  have "j \<in> set (querySelectorAll layer_selector (document ?s'))"
    using j by (simp add: querySelectorAll_set)
  then have jw: "j \<in> set ?ws" by (simp only: q)
  then have "getWindowId (document s ! j) \<in> set (visible_ids s)"
    by (auto simp: visible_ids_def)
  then have "getWindowId (document s ! j) \<in> set ?ord"
    using np by (simp add: recalculate_set_order)
  then obtain p where p: "p < length ?ord" "?ord ! p = getWindowId (document s ! j)"
    by (auto simp: in_set_conv_nth)
  have wm: "window_with_id ?s' (getWindowId (document s ! j)) = Some j"
  proof -
    have "window_with_id ?s' = windowMap_of (document s) ?ws"
      unfolding window_with_id_def
      by (rule windowMap_of_cong) (rule recalculate_forget_z)
    moreover have "windowMap_of (document s) ?ws (getWindowId (document s ! j)) = Some j"
      using dv jw unfolding visible_ids_def by (rule windowMap_of_distinct)
    ultimately show ?thesis by simp
  qed
  from recalculate_zIndex_at [OF np d p(1)]
  have "z_index (document ?s' ! j) = Some (100000 + int p * 10)"
    by (simp add: zIndex_of_def p(2) wm)
  with p show ?thesis by blast
qed

text \<open>
  C2 (as the code has it). After a recalculation that runs (no popup is visible), on a layer order without
  duplicates and visible windows with distinct ids: the window whose id stands at position
  \<open>p\<close> of the layer order has z-index \<open>100000 + p * 10\<close>, so of two positions the
  earlier has the strictly smaller z-index; and every visible window has a z-index that no
  other visible window has.
\<close>

theorem monotonic_z_index:
  assumes "\<not> popup_visible s" and "distinct (windowLayerOrder s)"
    and "distinct (visible_ids s)"
  shows "(\<forall>p. p < length (windowLayerOrder (recalculateWindowLayers s)) \<longrightarrow>
            zIndex_of (recalculateWindowLayers s)
                (windowLayerOrder (recalculateWindowLayers s) ! p)
              = Some (100000 + int p * 10)) \<and>
         (\<forall>p q zp zq. p < q \<and> q < length (windowLayerOrder (recalculateWindowLayers s)) \<and>
            zIndex_of (recalculateWindowLayers s)
                (windowLayerOrder (recalculateWindowLayers s) ! p) = Some zp \<and>
            zIndex_of (recalculateWindowLayers s)
                (windowLayerOrder (recalculateWindowLayers s) ! q) = Some zq
            \<longrightarrow> zp < zq) \<and>
         (\<forall>j k. j \<noteq> k \<and> j < length (document (recalculateWindowLayers s)) \<and>
            k < length (document (recalculateWindowLayers s)) \<and>
            layer_selector (document (recalculateWindowLayers s) ! j) \<and>
            layer_selector (document (recalculateWindowLayers s) ! k)
            \<longrightarrow> z_index (document (recalculateWindowLayers s) ! j) \<noteq> None \<and>
                z_index (document (recalculateWindowLayers s) ! j)
                  \<noteq> z_index (document (recalculateWindowLayers s) ! k))"
proof -
  let ?s' = "recalculateWindowLayers s"
  let ?ord = "windowLayerOrder ?s'"
  have at: "zIndex_of ?s' (?ord ! p) = Some (100000 + int p * 10)" if "p < length ?ord" for p
    using assms(1,2) that by (rule recalculate_zIndex_at)
  have mono: "zp < zq"
    if "p < q" "q < length ?ord" "zIndex_of ?s' (?ord ! p) = Some zp"
       "zIndex_of ?s' (?ord ! q) = Some zq" for p q zp zq
  proof -
    from that have "p < length ?ord" by simp
    from at [OF this] at [OF that(2)] that show ?thesis by simp
  qed
  have sep: "z_index (document ?s' ! j) \<noteq> None \<and>
             z_index (document ?s' ! j) \<noteq> z_index (document ?s' ! k)"
    if "j \<noteq> k" "j < length (document ?s')" "k < length (document ?s')"
       "layer_selector (document ?s' ! j)" "layer_selector (document ?s' ! k)" for j k
  proof -
    let ?ws = "querySelectorAll layer_selector (document s)"
    have q: "querySelectorAll layer_selector (document ?s') = ?ws"
      by (rule querySelectorAll_cong [OF recalculate_forget_z]) simp
    from that have jl: "j < length (document s)" and kl: "k < length (document s)" by simp_all
    from that have "j \<in> set (querySelectorAll layer_selector (document ?s'))"
      "k \<in> set (querySelectorAll layer_selector (document ?s'))"
      by (simp_all add: querySelectorAll_set)
    then have jw: "j \<in> set ?ws" and kw: "k \<in> set ?ws" by (simp_all only: q)
    from assms(3) have "inj_on (\<lambda>i. getWindowId (document s ! i)) (set ?ws)"
      unfolding visible_ids_def by (simp add: distinct_map)
    with jw kw that(1) have ne: "getWindowId (document s ! j) \<noteq> getWindowId (document s ! k)"
      by (auto dest: inj_onD)
    from recalculate_visible_zIndex [OF assms jl that(4)]
    obtain p where p: "?ord ! p = getWindowId (document s ! j)"
      "z_index (document ?s' ! j) = Some (100000 + int p * 10)" by blast
    from recalculate_visible_zIndex [OF assms kl that(5)]
    obtain r where r: "?ord ! r = getWindowId (document s ! k)"
      "z_index (document ?s' ! k) = Some (100000 + int r * 10)" by blast
    from ne p(1) r(1) have "p \<noteq> r" by auto
    with p(2) r(2) show ?thesis by simp
  qed
  show ?thesis
    using at mono sep by blast
qed

text \<open>
  C7. While a rename, delete or remove-note popup is in the document,
  \<open>recalculateWindowLayers\<close> returns at its first statement: the whole state, and so
  the layer order and every window's z-index, is what it was, at every call.
\<close>

theorem popup_freeze:
  "popup_visible s \<Longrightarrow> recalculateWindowLayers s = s"
  by (simp add: recalculateWindowLayers_def)

subsection \<open>Elements\<close>

lemma has_class_add [simp]:
  "has_class c (classList_add c' e) \<longleftrightarrow> c = c' \<or> has_class c e"
  by (auto simp: has_class_def classList_add_def)

lemma has_class_remove [simp]:
  "has_class c (classList_remove c' e) \<longleftrightarrow> c \<noteq> c' \<and> has_class c e"
  by (auto simp: has_class_def classList_remove_def)

lemma has_class_z [simp]: "has_class c (e\<lparr>z_index := z\<rparr>) = has_class c e"
  by (simp add: has_class_def)

lemma static_part_add [simp]:
  "static_part (classList_add ''active'' e) = static_part e"
  "static_part (classList_add ''focused'' e) = static_part e"
  by (simp_all add: static_part_def classList_add_def)

lemma filter_removeAll_absorb:
  "\<not> P x \<Longrightarrow> filter P (removeAll x xs) = filter P xs"
  by (induction xs) auto

lemma static_part_remove [simp]:
  "static_part (classList_remove ''active'' e) = static_part e"
  "static_part (classList_remove ''focused'' e) = static_part e"
  by (simp_all add: static_part_def classList_remove_def filter_removeAll_absorb)

lemma static_part_forget_z [simp]: "static_part (forget_z e) = static_part e"
  by (simp add: static_part_def forget_z_def)

lemma has_class_static:
  "c \<noteq> ''active'' \<Longrightarrow> c \<noteq> ''focused'' \<Longrightarrow> has_class c (static_part e) = has_class c e"
  by (simp add: static_part_def has_class_def)

lemma getWindowId_static [simp]: "getWindowId (static_part e) = getWindowId e"
  by (simp add: getWindowId_def has_class_static) (simp add: static_part_def)

lemma data_window_static [simp]: "data_window (static_part e) = data_window e"
  by (simp add: static_part_def)

lemma data_window_add_remove [simp]:
  "data_window (classList_add c e) = data_window e"
  "data_window (classList_remove c e) = data_window e"
  by (simp_all add: classList_add_def classList_remove_def)

lemma getWindowId_add_remove [simp]:
  "getWindowId (classList_add ''active'' e) = getWindowId e"
  "getWindowId (classList_add ''focused'' e) = getWindowId e"
  "getWindowId (classList_remove ''active'' e) = getWindowId e"
  "getWindowId (classList_remove ''focused'' e) = getWindowId e"
  by (simp_all add: getWindowId_def classList_add_def classList_remove_def has_class_def)

lemma has_class_forget_z [simp]: "has_class c (forget_z e) = has_class c e"
  by (simp add: forget_z_def has_class_def)

subsection \<open>Documents\<close>

lemma nth_update_any:
  "j < length xs \<Longrightarrow> xs[k := y] ! j = (if j = k then y else xs ! j)"
  by (cases "k < length xs") (auto simp: nth_list_update)

lemma length_for_each_element [simp]: "length (for_each_element f doc) = length doc"
  by (simp add: for_each_element_def)

lemma nth_for_each_element:
  "j < length doc \<Longrightarrow> for_each_element f doc ! j = f j (doc ! j)"
  by (simp add: for_each_element_def nth_enumerate_eq)

lemma forget_z_nth:
  assumes "map forget_z d = map forget_z d'" and "j < length d"
  shows "forget_z (d ! j) = forget_z (d' ! j)"
  using assms by (metis length_map nth_map)

lemma recalculate_nth:
  assumes "j < length (document s)"
  shows "static_part (document (recalculateWindowLayers s) ! j) = static_part (document s ! j)"
    and "has_class c (document (recalculateWindowLayers s) ! j) = has_class c (document s ! j)"
proof -
  have "forget_z (document (recalculateWindowLayers s) ! j) = forget_z (document s ! j)"
    using recalculate_forget_z assms by (intro forget_z_nth) simp_all
  then show "static_part (document (recalculateWindowLayers s) ! j) = static_part (document s ! j)"
    and "has_class c (document (recalculateWindowLayers s) ! j) = has_class c (document s ! j)"
    by (metis static_part_forget_z, metis has_class_forget_z)
qed

lemma same_static_ids: "same_static d d' \<Longrightarrow> map getWindowId d = map getWindowId d'"
  unfolding same_static_def list_eq_iff_nth_eq
  by (metis getWindowId_static length_map nth_map)

lemma same_static_class:
  assumes "same_static d d'" and "c \<noteq> ''active''" and "c \<noteq> ''focused''" and "j < length d"
  shows "has_class c (d ! j) = has_class c (d' ! j)"
  using assms unfolding same_static_def by (metis has_class_static)

lemma same_static_data_window:
  "same_static d d' \<Longrightarrow> j < length d \<Longrightarrow> data_window (d ! j) = data_window (d' ! j)"
  unfolding same_static_def by (metis data_window_static)

lemma wf_document_same_static:
  assumes "same_static d d'" and "wf_document d'"
  shows "wf_document d"
proof -
  from assms(1) have len: "length d = length d'" by (simp add: same_static_def)
  have "has_class ''window'' e \<and> \<not> has_class ''sticker-preview-window'' e" if "e \<in> set d" for e
  proof -
    from that obtain j where j: "j < length d" "e = d ! j" by (auto simp: in_set_conv_nth)
    then have "d' ! j \<in> set d'" using len by simp
    with assms(2) have "has_class ''window'' (d' ! j) \<and> \<not> has_class ''sticker-preview-window'' (d' ! j)"
      by (simp add: wf_document_def)
    then show ?thesis
      using same_static_class [OF assms(1) _ _ j(1)] j(2) by simp
  qed
  then show ?thesis
    using assms same_static_ids [OF assms(1)] by (simp add: wf_document_def)
qed

lemma visible_set_wf:
  assumes "wf_document (document s)"
  shows "set (visible_ids s) =
     {getWindowId (document s ! j) | j. j < length (document s) \<and> has_class ''active'' (document s ! j)}"
proof -
  have "layer_selector (document s ! j) = has_class ''active'' (document s ! j)"
    if "j < length (document s)" for j
  proof -
    from that have "document s ! j \<in> set (document s)" by simp
    with assms show ?thesis by (auto simp: wf_document_def layer_selector_def)
  qed
  then show ?thesis
    by (auto simp: visible_ids_def querySelectorAll_set)
qed

lemma wf_id_inj:
  assumes "wf_document doc" and "j < length doc" and "k < length doc"
    and "getWindowId (doc ! j) = getWindowId (doc ! k)"
  shows "j = k"
proof -
  from assms(1) have "distinct (map getWindowId doc)" by (simp add: wf_document_def)
  with assms(2-4) show ?thesis
    by (metis length_map nth_eq_iff_index_eq nth_map)
qed

subsection \<open>\<open>bringWindowToFront\<close>\<close>

lemma bring_null [simp]: "\<not> i < length (document s) \<Longrightarrow> bringWindowToFront i d s = s"
  by (simp add: bringWindowToFront_def)

lemma bring_fields [simp]:
  "activeWindows (bringWindowToFront i d s) = activeWindows s"
  "recentlyClosedWindows (bringWindowToFront i d s) = recentlyClosedWindows s"
  "popup_visible (bringWindowToFront i d s) = popup_visible s"
  "timers (bringWindowToFront i d s) = timers s"
  "clock (bringWindowToFront i d s) = clock s"
  "length (document (bringWindowToFront i d s)) = length (document s)"
  by (simp_all add: bringWindowToFront_def Let_def)

lemma bring_order:
  "i < length (document s) \<Longrightarrow>
   windowLayerOrder (bringWindowToFront i d s) =
     windowLayerOrder (recalculateWindowLayers
       (s\<lparr>document := (document s)[i := classList_add ''active'' (document s ! i)],
          windowLayerOrder := remove1 (getWindowId (document s ! i)) (windowLayerOrder s)
                                @ [getWindowId (document s ! i)]\<rparr>))"
  by (simp add: bringWindowToFront_def Let_def)

lemma bring_nth:
  assumes "i < length (document s)" and "j < length (document s)"
  shows "static_part (document (bringWindowToFront i d s) ! j) = static_part (document s ! j)"
    and "has_class ''active'' (document (bringWindowToFront i d s) ! j)
           \<longleftrightarrow> j = i \<or> has_class ''active'' (document s ! j)"
    and "has_class ''focused'' (document (bringWindowToFront i d s) ! i)"
  using assms
  by (simp_all add: bringWindowToFront_def Let_def nth_list_update nth_for_each_element
      recalculate_nth)

lemma focusWindow_unfold:
  "focusWindow i s =
     (if \<not> i < length (document s) \<or> data_window (document s ! i) \<in> set (recentlyClosedWindows s)
      then s else refocus i (bringWindowToFront i False s))"
  by (simp add: focusWindow_def refocus_def Let_def)

lemma refocus_fields [simp]:
  "activeWindows (refocus i s) = activeWindows s"
  "recentlyClosedWindows (refocus i s) = recentlyClosedWindows s"
  "popup_visible (refocus i s) = popup_visible s"
  "timers (refocus i s) = timers s"
  "clock (refocus i s) = clock s"
  "windowLayerOrder (refocus i s) = windowLayerOrder s"
  "length (document (refocus i s)) = length (document s)"
  by (simp_all add: refocus_def Let_def)

lemma refocus_nth:
  assumes "j < length (document s)"
  shows "static_part (document (refocus i s) ! j) = static_part (document s ! j)"
    and "has_class ''active'' (document (refocus i s) ! j) = has_class ''active'' (document s ! j)"
    and "j = i \<Longrightarrow> has_class ''focused'' (document (refocus i s) ! j)"
  using assms
  by (auto simp add: refocus_def Let_def nth_update_any nth_for_each_element)

lemma visible_ids_same:
  assumes "length (document s) = length (document t)"
    and "\<And>j. j < length (document s) \<Longrightarrow>
           static_part (document s ! j) = static_part (document t ! j) \<and>
           has_class ''active'' (document s ! j) = has_class ''active'' (document t ! j)"
  shows "visible_ids s = visible_ids t"
proof -
  have *: "getWindowId (document s ! j) = getWindowId (document t ! j) \<and>
        layer_selector (document s ! j) = layer_selector (document t ! j)"
    if "j < length (document s)" for j
  proof -
    from assms(2) [OF that] have st: "static_part (document s ! j) = static_part (document t ! j)"
      and ac: "has_class ''active'' (document s ! j) = has_class ''active'' (document t ! j)"
      by simp_all
    have "has_class c (document s ! j) = has_class c (document t ! j)"
      if "c \<noteq> ''active''" "c \<noteq> ''focused''" for c
      using st that by (metis has_class_static)
    then have "layer_selector (document s ! j) = layer_selector (document t ! j)"
      using ac by (simp add: layer_selector_def)
    moreover have "getWindowId (document s ! j) = getWindowId (document t ! j)"
      using st by (metis getWindowId_static)
    ultimately show ?thesis by simp
  qed
  have q: "querySelectorAll layer_selector (document s) = querySelectorAll layer_selector (document t)"
    unfolding querySelectorAll_def assms(1) [symmetric]
    by (intro filter_cong refl) (use * in auto)
  show ?thesis
    unfolding visible_ids_def q [symmetric]
    by (intro map_cong refl) (auto simp: querySelectorAll_set *)
qed

lemma refocus_visible_ids [simp]: "visible_ids (refocus i s) = visible_ids s"
  by (rule visible_ids_same) (simp_all add: refocus_nth)

lemma same_static_nth:
  "length d = length d' \<Longrightarrow> (\<And>j. j < length d \<Longrightarrow> static_part (d ! j) = static_part (d' ! j))
     \<Longrightarrow> same_static d d'"
  by (simp add: same_static_def)

lemma refocus_same_static: "same_static (document (refocus i s)) (document s)"
  by (rule same_static_nth) (simp_all add: refocus_nth)

lemma bring_same_static: "same_static (document (bringWindowToFront i d s)) (document s)"
  by (cases "i < length (document s)")
     (auto intro!: same_static_nth simp: bring_nth)

lemma same_static_trans:
  "same_static a b \<Longrightarrow> same_static b c \<Longrightarrow> same_static a c"
  by (simp add: same_static_def)

lemma same_static_refl [simp]: "same_static a a"
  by (simp add: same_static_def)

lemma same_static_update:
  "static_part y = static_part (d ! k) \<Longrightarrow> same_static (d[k := y]) d"
  by (auto simp add: same_static_def nth_update_any)

subsection \<open>Visible sets after a change of the active flags\<close>

lemma visible_set_insert:
  assumes wf: "wf_document (document s)" and ss: "same_static (document t) (document s)"
    and i: "i < length (document s)"
    and ac: "\<And>j. j < length (document s) \<Longrightarrow>
               has_class ''active'' (document t ! j) \<longleftrightarrow> j = i \<or> has_class ''active'' (document s ! j)"
  shows "set (visible_ids t) = insert (getWindowId (document s ! i)) (set (visible_ids s))"
proof -
  have wft: "wf_document (document t)" using ss wf by (rule wf_document_same_static)
  from ss have len: "length (document t) = length (document s)" by (simp add: same_static_def)
  have id: "getWindowId (document t ! j) = getWindowId (document s ! j)" if "j < length (document s)" for j
    using ss that len unfolding same_static_def by (metis getWindowId_static)
  have "(\<exists>j. x = getWindowId (document t ! j) \<and> j < length (document s) \<and>
              has_class ''active'' (document t ! j))
      \<longleftrightarrow> x = getWindowId (document s ! i) \<or>
          (\<exists>j. x = getWindowId (document s ! j) \<and> j < length (document s) \<and>
              has_class ''active'' (document s ! j))" for x
    using i ac id by metis
  then show ?thesis
    unfolding visible_set_wf [OF wf] visible_set_wf [OF wft] len by auto
qed

lemma visible_set_remove:
  assumes wf: "wf_document (document s)" and ss: "same_static (document t) (document s)"
    and i: "i < length (document s)"
    and ac: "\<And>j. j < length (document s) \<Longrightarrow>
               has_class ''active'' (document t ! j) \<longleftrightarrow> j \<noteq> i \<and> has_class ''active'' (document s ! j)"
  shows "set (visible_ids t) = set (visible_ids s) - {getWindowId (document s ! i)}"
proof -
  have wft: "wf_document (document t)" using ss wf by (rule wf_document_same_static)
  from ss have len: "length (document t) = length (document s)" by (simp add: same_static_def)
  have id: "getWindowId (document t ! j) = getWindowId (document s ! j)" if "j < length (document s)" for j
    using ss that len unfolding same_static_def by (metis getWindowId_static)
  have inj: "j = i" if "j < length (document s)" "getWindowId (document s ! j) = getWindowId (document s ! i)" for j
    using wf that(1) i that(2) by (rule wf_id_inj)
  have "(\<exists>j. x = getWindowId (document t ! j) \<and> j < length (document s) \<and>
              has_class ''active'' (document t ! j))
      \<longleftrightarrow> x \<noteq> getWindowId (document s ! i) \<and>
          (\<exists>j. x = getWindowId (document s ! j) \<and> j < length (document s) \<and>
              has_class ''active'' (document s ! j))" for x
    using i ac id inj by metis
  then show ?thesis
    unfolding visible_set_wf [OF wf] visible_set_wf [OF wft] len by auto
qed

lemma visible_ids_updates [simp]:
  "visible_ids (s\<lparr>windowLayerOrder := a\<rparr>) = visible_ids s"
  "visible_ids (s\<lparr>activeWindows := b\<rparr>) = visible_ids s"
  "visible_ids (s\<lparr>recentlyClosedWindows := c\<rparr>) = visible_ids s"
  "visible_ids (s\<lparr>timers := d\<rparr>) = visible_ids s"
  "visible_ids (s\<lparr>clock := e\<rparr>) = visible_ids s"
  "visible_ids (s\<lparr>popup_visible := f\<rparr>) = visible_ids s"
  "visible_ids (s\<lparr>windowZIndex := g\<rparr>) = visible_ids s"
  by (simp_all add: visible_ids_def)

lemma visible_set_subset:
  assumes wf: "wf_document (document s)" and ss: "same_static (document t) (document s)"
    and ac: "\<And>j. j < length (document s) \<Longrightarrow>
               has_class ''active'' (document t ! j) \<Longrightarrow> has_class ''active'' (document s ! j)"
  shows "set (visible_ids t) \<subseteq> set (visible_ids s)"
proof -
  have wft: "wf_document (document t)" using ss wf by (rule wf_document_same_static)
  from ss have len: "length (document t) = length (document s)" by (simp add: same_static_def)
  have id: "getWindowId (document t ! j) = getWindowId (document s ! j)" if "j < length (document s)" for j
    using ss that len unfolding same_static_def by (metis getWindowId_static)
  show ?thesis
    unfolding visible_set_wf [OF wf] visible_set_wf [OF wft] len
    using ac id by auto
qed

lemma activate_same_static: "same_static (document (activate i s)) (document s)"
  by (simp add: activate_def same_static_update)

lemma activate_visible:
  assumes "wf_document (document s)" and "i < length (document s)"
  shows "set (visible_ids (activate i s)) = insert (getWindowId (document s ! i)) (set (visible_ids s))"
  using assms(1) activate_same_static assms(2)
  by (rule visible_set_insert) (auto simp: activate_def nth_update_any)


lemma activate_fields [simp]:
  "windowLayerOrder (activate i s) = windowLayerOrder s"
  "popup_visible (activate i s) = popup_visible s"
  "length (document (activate i s)) = length (document s)"
  by (simp_all add: activate_def)

lemma bring_order_activate:
  "i < length (document s) \<Longrightarrow>
   windowLayerOrder (bringWindowToFront i d s) =
     windowLayerOrder (recalculateWindowLayers
       ((activate i s)\<lparr>windowLayerOrder :=
           remove1 (getWindowId (document s ! i)) (windowLayerOrder s)
             @ [getWindowId (document s ! i)]\<rparr>))"
  by (simp add: bring_order activate_def)

lemma bring_visible:
  assumes "wf_document (document s)" and "i < length (document s)"
  shows "set (visible_ids (bringWindowToFront i d s))
       = insert (getWindowId (document s ! i)) (set (visible_ids s))"
  using assms(1) bring_same_static assms(2)
  by (rule visible_set_insert) (simp add: bring_nth assms(2))

lemma bring_order_set:
  assumes wf: "wf_document (document s)" and d: "distinct (windowLayerOrder s)"
    and i: "i < length (document s)"
  shows "set (windowLayerOrder (bringWindowToFront i b s)) =
     insert (getWindowId (document s ! i))
       (if popup_visible s then set (windowLayerOrder s) else set (visible_ids s))"
proof (cases "popup_visible s")
  case True
  then show ?thesis
    using i d by (auto simp: bring_order_activate recalculate_popup)
next
  case False
  then show ?thesis
    using i by (simp add: bring_order_activate recalculate_set_order activate_visible [OF wf i])
qed

lemma bring_distinct:
  "distinct (windowLayerOrder s) \<Longrightarrow> distinct (windowLayerOrder (bringWindowToFront i d s))"
  by (cases "i < length (document s)")
     (auto simp: bring_order_activate intro!: recalculate_distinct_order)

lemma bring_order_last:
  assumes wf: "wf_document (document s)" and d: "distinct (windowLayerOrder s)"
    and i: "i < length (document s)"
    and cover: "set (visible_ids s) \<subseteq> insert (getWindowId (document s ! i)) (set (windowLayerOrder s))"
  shows "\<exists>xs. windowLayerOrder (bringWindowToFront i b s) = xs @ [getWindowId (document s ! i)]"
proof (cases "popup_visible s")
  case True
  then show ?thesis using i by (simp add: bring_order_activate recalculate_popup)
next
  case False
  let ?id = "getWindowId (document s ! i)"
  let ?s1 = "(activate i s)\<lparr>windowLayerOrder := remove1 ?id (windowLayerOrder s) @ [?id]\<rparr>"
  let ?pruned = "filter (\<lambda>w. w \<in> set (visible_ids ?s1)) (windowLayerOrder ?s1)"
  have vs: "set (visible_ids ?s1) = insert ?id (set (visible_ids s))"
    using activate_visible [OF wf i] by simp
  have pr: "?pruned = filter (\<lambda>w. w \<in> set (visible_ids ?s1)) (remove1 ?id (windowLayerOrder s)) @ [?id]"
    using vs by simp
  have known: "\<forall>j \<in> set (querySelectorAll layer_selector (document ?s1)).
      getWindowId (document ?s1 ! j) \<in> set ?pruned"
  proof
    fix j assume "j \<in> set (querySelectorAll layer_selector (document ?s1))"
    then have m: "getWindowId (document ?s1 ! j) \<in> set (visible_ids ?s1)"
      by (auto simp: visible_ids_def)
    show "getWindowId (document ?s1 ! j) \<in> set ?pruned"
    proof (cases "getWindowId (document ?s1 ! j) = ?id")
      case True
      then show ?thesis by (simp add: pr activate_visible [OF wf i])
    next
      case False
      with m vs have "getWindowId (document ?s1 ! j) \<in> set (visible_ids s)" by auto
      with cover False have "getWindowId (document ?s1 ! j) \<in> set (windowLayerOrder s)" by auto
      with False d have "getWindowId (document ?s1 ! j) \<in> set (remove1 ?id (windowLayerOrder s))"
        by simp
      with m show ?thesis by (simp add: pr activate_visible [OF wf i])
    qed
  qed
  have np1: "\<not> popup_visible ?s1" using False by simp
  have "windowLayerOrder (recalculateWindowLayers ?s1) = ?pruned"
    unfolding recalculate_order [OF np1] by (rule add_new_windows_known [OF known])
  moreover have "windowLayerOrder (bringWindowToFront i b s)
      = windowLayerOrder (recalculateWindowLayers ?s1)"
    using i by (rule bring_order_activate)
  ultimately have "windowLayerOrder (bringWindowToFront i b s)
      = filter (\<lambda>w. w \<in> set (visible_ids ?s1)) (remove1 ?id (windowLayerOrder s)) @ [?id]"
    using pr by (simp only:)
  then show ?thesis by blast
qed


subsection \<open>\<open>closeWindow\<close>\<close>

lemma close_null [simp]: "\<not> i < length (document s) \<Longrightarrow> closeWindow i s = s"
  by (simp add: closeWindow_def)

lemma close_fields:
  assumes "i < length (document s)"
  shows "recentlyClosedWindows (closeWindow i s)
           = set_add (data_window (document s ! i)) (recentlyClosedWindows s)"
    and "timers (closeWindow i s)
           = timers s @ [(clock s + 200, Release_closed (data_window (document s ! i)))]"
    and "activeWindows (closeWindow i s)
           = set_delete (data_window (document s ! i)) (activeWindows s)"
  using assms by (simp_all add: closeWindow_def Let_def)

lemma close_fields' [simp]:
  "popup_visible (closeWindow i s) = popup_visible s"
  "clock (closeWindow i s) = clock s"
  "length (document (closeWindow i s)) = length (document s)"
  by (simp_all add: closeWindow_def Let_def)

lemma deactivate_same_static: "same_static (document (deactivate i s)) (document s)"
  by (simp add: deactivate_def same_static_update)

lemma deactivate_visible:
  assumes "wf_document (document s)" and "i < length (document s)"
  shows "set (visible_ids (deactivate i s)) = set (visible_ids s) - {getWindowId (document s ! i)}"
  using assms(1) deactivate_same_static assms(2)
  by (rule visible_set_remove) (auto simp: deactivate_def nth_update_any)

lemma deactivate_fields [simp]:
  "windowLayerOrder (deactivate i s) = windowLayerOrder s"
  "popup_visible (deactivate i s) = popup_visible s"
  "length (document (deactivate i s)) = length (document s)"
  by (simp_all add: deactivate_def)

lemma close_order:
  "i < length (document s) \<Longrightarrow>
   windowLayerOrder (closeWindow i s) =
     windowLayerOrder (recalculateWindowLayers
       ((deactivate i s)\<lparr>windowLayerOrder :=
           remove1 (getWindowId (document s ! i)) (windowLayerOrder s)\<rparr>))"
  by (simp add: closeWindow_def Let_def deactivate_def recalculateWindowLayers_def)

lemma close_nth:
  assumes "i < length (document s)" and "j < length (document s)"
  shows "static_part (document (closeWindow i s) ! j) = static_part (document s ! j)"
    and "has_class ''active'' (document (closeWindow i s) ! j)
           \<longleftrightarrow> j \<noteq> i \<and> has_class ''active'' (document s ! j)"
  using assms
  by (auto simp add: closeWindow_def Let_def nth_update_any recalculate_nth)

lemma close_same_static: "same_static (document (closeWindow i s)) (document s)"
  by (cases "i < length (document s)") (auto intro!: same_static_nth simp: close_nth)

lemma close_visible:
  assumes "wf_document (document s)" and "i < length (document s)"
  shows "set (visible_ids (closeWindow i s)) = set (visible_ids s) - {getWindowId (document s ! i)}"
  using assms(1) close_same_static assms(2)
  by (rule visible_set_remove) (simp add: close_nth assms(2))

lemma close_order_set:
  assumes wf: "wf_document (document s)" and d: "distinct (windowLayerOrder s)"
    and i: "i < length (document s)"
  shows "set (windowLayerOrder (closeWindow i s)) =
     (if popup_visible s then set (windowLayerOrder s) else set (visible_ids s))
       - {getWindowId (document s ! i)}"
proof (cases "popup_visible s")
  case True
  then show ?thesis
    using i d by (simp add: close_order recalculate_popup)
next
  case False
  then show ?thesis
    using i by (simp add: close_order recalculate_set_order deactivate_visible [OF wf i])
qed

lemma close_distinct:
  "distinct (windowLayerOrder s) \<Longrightarrow> distinct (windowLayerOrder (closeWindow i s))"
  by (cases "i < length (document s)")
     (auto simp: close_order intro!: recalculate_distinct_order)

subsection \<open>Timers\<close>

lemma run_timer_fields [simp]:
  "windowLayerOrder (run_timer c s) = windowLayerOrder s"
  "popup_visible (run_timer c s) = popup_visible s"
  "clock (run_timer c s) = clock s"
  "timers (run_timer c s) = timers s"
  "length (document (run_timer c s)) = length (document s)"
  by (cases c; simp)+

lemma run_timer_nth:
  assumes "j < length (document s)"
  shows "static_part (document (run_timer c s) ! j) = static_part (document s ! j)"
    and "has_class ''active'' (document (run_timer c s) ! j) \<Longrightarrow> has_class ''active'' (document s ! j)"
  using assms by (cases c; auto simp: nth_update_any split: if_splits)+

lemma run_timers_fields [simp]:
  "windowLayerOrder (run_timers cs s) = windowLayerOrder s"
  "popup_visible (run_timers cs s) = popup_visible s"
  "clock (run_timers cs s) = clock s"
  "timers (run_timers cs s) = timers s"
  "length (document (run_timers cs s)) = length (document s)"
  by (induction cs s rule: run_timers.induct; simp)+

lemma run_timers_static:
  "j < length (document s) \<Longrightarrow>
     static_part (document (run_timers cs s) ! j) = static_part (document s ! j)"
proof (induction cs arbitrary: s)
  case Nil
  then show ?case by simp
next
  case (Cons c cs)
  obtain due callback where c: "c = (due, callback)" by (cases c)
  from Cons.prems have "j < length (document (run_timer callback s))" by simp
  from Cons.IH [OF this] Cons.prems show ?case by (simp add: c run_timer_nth)
qed

lemma run_timers_active:
  "j < length (document s) \<Longrightarrow> has_class ''active'' (document (run_timers cs s) ! j)
     \<Longrightarrow> has_class ''active'' (document s ! j)"
proof (induction cs arbitrary: s)
  case Nil
  then show ?case by simp
next
  case (Cons c cs)
  obtain due callback where c: "c = (due, callback)" by (cases c)
  from Cons.prems have l: "j < length (document (run_timer callback s))" by simp
  from Cons.prems have "has_class ''active'' (document (run_timers cs (run_timer callback s)) ! j)"
    by (simp add: c)
  from Cons.IH [OF l this] Cons.prems(1) show ?case by (rule run_timer_nth(2) [rotated])
qed

lemma run_timers_same_static: "same_static (document (run_timers cs s)) (document s)"
  by (rule same_static_nth) (simp_all add: run_timers_static)

lemma run_timers_releases_only:
  "\<forall>t \<in> set cs. case snd t of Finish_minimize i k \<Rightarrow> False | _ \<Rightarrow> True
     \<Longrightarrow> document (run_timers cs s) = document s \<and> activeWindows (run_timers cs s) = activeWindows s"
proof (induction cs arbitrary: s)
  case Nil
  then show ?case by simp
next
  case (Cons c cs)
  obtain due callback where c: "c = (due, callback)" by (cases c)
  with Cons.prems obtain k where k: "callback = Release_closed k"
    by (cases callback) auto
  from Cons.prems Cons.IH [of "run_timer callback s"] show ?case by (simp add: c k)
qed

lemma set_delete_set [simp]: "set (set_delete x xs) = set xs - {x}"
  by (auto simp: set_delete_def)

lemma set_add_set [simp]: "set (set_add x xs) = insert x (set xs)"
  by (auto simp: set_add_def)

lemma run_timers_closed_subset:
  "set (recentlyClosedWindows (run_timers cs s)) \<subseteq> set (recentlyClosedWindows s)"
proof (induction cs arbitrary: s)
  case Nil
  then show ?case by simp
next
  case (Cons c cs)
  obtain due callback where c: "c = (due, callback)" by (cases c)
  have "set (recentlyClosedWindows (run_timer callback s)) \<subseteq> set (recentlyClosedWindows s)"
    by (cases callback) auto
  with Cons.IH [of "run_timer callback s"] show ?case by (auto simp: c)
qed

lemma run_timers_closed_keep:
  "k \<in> set (recentlyClosedWindows s) \<Longrightarrow> \<forall>t \<in> set cs. snd t \<noteq> Release_closed k
     \<Longrightarrow> k \<in> set (recentlyClosedWindows (run_timers cs s))"
proof (induction cs arbitrary: s)
  case Nil
  then show ?case by simp
next
  case (Cons c cs)
  obtain due callback where c: "c = (due, callback)" by (cases c)
  from Cons.prems have "callback \<noteq> Release_closed k" by (simp add: c)
  with Cons.prems(1) have "k \<in> set (recentlyClosedWindows (run_timer callback s))"
    by (cases callback) auto
  from Cons.IH [OF this] Cons.prems(2) show ?case by (simp add: c)
qed

lemma run_timers_closed_released:
  "(d, Release_closed k) \<in> set cs \<Longrightarrow> k \<notin> set (recentlyClosedWindows (run_timers cs s))"
proof (induction cs arbitrary: s)
  case Nil
  then show ?case by simp
next
  case (Cons c cs)
  obtain due callback where c: "c = (due, callback)" by (cases c)
  show ?case
  proof (cases "c = (d, Release_closed k)")
    case True
    then have "k \<notin> set (recentlyClosedWindows (run_timer callback s))" by (auto simp: c)
    with run_timers_closed_subset [of cs "run_timer callback s"] show ?thesis
      by (auto simp: c)
  next
    case False
    with Cons.prems have "(d, Release_closed k) \<in> set cs" by simp
    from Cons.IH [OF this] show ?thesis by (simp add: c)
  qed
qed

lemma run_timers_active_subset:
  "set (activeWindows (run_timers cs s)) \<subseteq> set (activeWindows s)"
proof (induction cs arbitrary: s)
  case Nil
  then show ?case by simp
next
  case (Cons c cs)
  obtain due callback where c: "c = (due, callback)" by (cases c)
  have "set (activeWindows (run_timer callback s)) \<subseteq> set (activeWindows s)"
    by (cases callback) auto
  with Cons.IH [of "run_timer callback s"] show ?case by (auto simp: c)
qed

lemma run_timers_hidden:
  "(d, Finish_minimize i k) \<in> set cs \<Longrightarrow> i < length (document s)
     \<Longrightarrow> \<not> has_class ''active'' (document (run_timers cs s) ! i)"
proof (induction cs arbitrary: s)
  case Nil
  then show ?case by simp
next
  case (Cons c cs)
  obtain due callback where c: "c = (due, callback)" by (cases c)
  from Cons.prems(2) have l: "i < length (document (run_timer callback s))" by simp
  show ?case
  proof (cases "c = (d, Finish_minimize i k)")
    case True
    then have "\<not> has_class ''active'' (document (run_timer callback s) ! i)"
      using Cons.prems(2) by (auto simp: c)
    with run_timers_active [OF l, of cs] show ?thesis by (auto simp: c)
  next
    case False
    with Cons.prems have "(d, Finish_minimize i k) \<in> set cs" by simp
    from Cons.IH [OF this l] show ?thesis by (simp add: c)
  qed
qed

subsection \<open>\<open>advance\<close>\<close>

lemma advance_unfold:
  "advance dt s =
     run_timers (due_timers dt s)
       (s\<lparr>clock := clock s + dt,
          timers := filter (\<lambda>(d, c). \<not> d \<le> clock s + dt) (timers s)\<rparr>)"
  by (simp add: advance_def due_timers_def Let_def)

lemma set_due_timers:
  "set (due_timers dt s) = {t \<in> set (timers s). fst t \<le> clock s + dt}"
  by (auto simp: due_timers_def)

lemma advance_fields [simp]:
  "windowLayerOrder (advance dt s) = windowLayerOrder s"
  "popup_visible (advance dt s) = popup_visible s"
  "clock (advance dt s) = clock s + dt"
  "length (document (advance dt s)) = length (document s)"
  "timers (advance dt s) = filter (\<lambda>(d, c). \<not> d \<le> clock s + dt) (timers s)"
  by (simp_all add: advance_unfold)

lemma advance_same_static: "same_static (document (advance dt s)) (document s)"
  using run_timers_same_static
    [of "due_timers dt s" "s\<lparr>clock := clock s + dt,
          timers := filter (\<lambda>(d, c). \<not> d \<le> clock s + dt) (timers s)\<rparr>"]
  by (simp add: advance_unfold)

lemma advance_active:
  "j < length (document s) \<Longrightarrow> has_class ''active'' (document (advance dt s) ! j)
     \<Longrightarrow> has_class ''active'' (document s ! j)"
  using run_timers_active
    [of j "s\<lparr>clock := clock s + dt,
          timers := filter (\<lambda>(d, c). \<not> d \<le> clock s + dt) (timers s)\<rparr>" "due_timers dt s"]
  by (simp add: advance_unfold)

lemma advance_no_minimize:
  assumes "no_pending_minimize s"
  shows "document (advance dt s) = document s" and "activeWindows (advance dt s) = activeWindows s"
    and "no_pending_minimize (advance dt s)"
proof -
  have "\<forall>t \<in> set (due_timers dt s). case snd t of Finish_minimize i k \<Rightarrow> False | _ \<Rightarrow> True"
    using assms by (auto simp: set_due_timers no_pending_minimize_def)
  from run_timers_releases_only [OF this]
  show "document (advance dt s) = document s" and "activeWindows (advance dt s) = activeWindows s"
    by (simp_all add: advance_unfold)
  show "no_pending_minimize (advance dt s)"
    using assms by (auto simp: no_pending_minimize_def)
qed

lemma advance_closed_subset:
  "set (recentlyClosedWindows (advance dt s)) \<subseteq> set (recentlyClosedWindows s)"
  using run_timers_closed_subset
    [of "due_timers dt s" "s\<lparr>clock := clock s + dt,
          timers := filter (\<lambda>(d, c). \<not> d \<le> clock s + dt) (timers s)\<rparr>"]
  by (simp add: advance_unfold)

lemma advance_active_subset:
  "set (activeWindows (advance dt s)) \<subseteq> set (activeWindows s)"
  using run_timers_active_subset
    [of "due_timers dt s" "s\<lparr>clock := clock s + dt,
          timers := filter (\<lambda>(d, c). \<not> d \<le> clock s + dt) (timers s)\<rparr>"]
  by (simp add: advance_unfold)

subsection \<open>\<open>querySelector\<close>\<close>

lemma querySelector_SomeD:
  assumes "querySelector_data_window k doc = Some i"
  shows "i < length doc" and "data_window (doc ! i) = Some k"
proof -
  from assms obtain rest where "querySelectorAll (\<lambda>e. data_window e = Some k) doc = i # rest"
    by (auto simp: querySelector_data_window_def split: list.splits)
  then have "i \<in> set (querySelectorAll (\<lambda>e. data_window e = Some k) doc)" by simp
  then show "i < length doc" and "data_window (doc ! i) = Some k"
    by (simp_all add: querySelectorAll_set)
qed

lemma querySelector_same_static:
  assumes "same_static d d'"
  shows "querySelector_data_window k d = querySelector_data_window k d'"
proof -
  from assms have len: "length d = length d'" by (simp add: same_static_def)
  have "querySelectorAll (\<lambda>e. data_window e = Some k) d
      = querySelectorAll (\<lambda>e. data_window e = Some k) d'"
    unfolding querySelectorAll_def len [symmetric]
    by (intro filter_cong refl) (use same_static_data_window [OF assms] in auto)
  then show ?thesis by (simp add: querySelector_data_window_def)
qed

subsection \<open>\<open>focusWindow\<close> and \<open>openWindow\<close>\<close>


lemma focus_fields [simp]:
  "activeWindows (focusWindow i s) = activeWindows s"
  "recentlyClosedWindows (focusWindow i s) = recentlyClosedWindows s"
  "popup_visible (focusWindow i s) = popup_visible s"
  "timers (focusWindow i s) = timers s"
  "clock (focusWindow i s) = clock s"
  "length (document (focusWindow i s)) = length (document s)"
  by (simp_all add: focusWindow_unfold)

lemma openWindow_unfold:
  "openWindow appName s =
     (case querySelector_data_window appName (document s) of
        None \<Rightarrow> s
      | Some i \<Rightarrow>
          if Some appName \<in> set (recentlyClosedWindows s) then s
          else if Some appName \<in> set (activeWindows s) then focusWindow i s
          else focusWindow i (activate i (s\<lparr>activeWindows := set_add (Some appName) (activeWindows s)\<rparr>)))"
  by (simp add: openWindow_def activate_def split: option.splits)


lemma open_fields [simp]:
  "recentlyClosedWindows (openWindow k s) = recentlyClosedWindows s"
  "popup_visible (openWindow k s) = popup_visible s"
  "timers (openWindow k s) = timers s"
  "clock (openWindow k s) = clock s"
  "length (document (openWindow k s)) = length (document s)"
  by (simp_all add: openWindow_unfold activate_def split: option.splits)

lemma minimize_fields [simp]:
  "document (minimizeWindow i s) = document s"
  "windowLayerOrder (minimizeWindow i s) = windowLayerOrder s"
  "recentlyClosedWindows (minimizeWindow i s) = recentlyClosedWindows s"
  "activeWindows (minimizeWindow i s) = activeWindows s"
  "popup_visible (minimizeWindow i s) = popup_visible s"
  "clock (minimizeWindow i s) = clock s"
  by (simp_all add: minimizeWindow_def Let_def)

lemma minimize_visible_ids [simp]: "visible_ids (minimizeWindow i s) = visible_ids s"
  by (simp add: visible_ids_def)

subsection \<open>The invariants are kept\<close>

lemma cover_bring:
  assumes wf: "wf_document (document s)" and d: "distinct (windowLayerOrder s)"
    and i: "i < length (document s)"
    and cover: "set (visible_ids s) \<subseteq> insert (getWindowId (document s ! i)) (set (windowLayerOrder s))"
  shows "inv_cover (bringWindowToFront i b s)"
  unfolding inv_cover_def
proof (intro conjI)
  show "wf_document (document (bringWindowToFront i b s))"
    using bring_same_static wf by (rule wf_document_same_static)
  show "distinct (windowLayerOrder (bringWindowToFront i b s))"
    using d by (rule bring_distinct)
  show "set (visible_ids (bringWindowToFront i b s)) \<subseteq> set (windowLayerOrder (bringWindowToFront i b s))"
    using cover by (auto simp: bring_visible [OF wf i] bring_order_set [OF wf d i])
qed

lemma exact_bring:
  assumes wf: "wf_document (document s)" and d: "distinct (windowLayerOrder s)"
    and i: "i < length (document s)"
    and exact: "set (windowLayerOrder s) \<subseteq> insert (getWindowId (document s ! i)) (set (visible_ids s))"
  shows "set (windowLayerOrder (bringWindowToFront i b s)) \<subseteq> set (visible_ids (bringWindowToFront i b s))"
  using exact by (auto simp: bring_visible [OF wf i] bring_order_set [OF wf d i])

lemma cover_refocus: "inv_cover s \<Longrightarrow> inv_cover (refocus i s)"
  unfolding inv_cover_def
  using wf_document_same_static [OF refocus_same_static, of s i] by simp

lemma cover_focus_gen:
  assumes wf: "wf_document (document s)" and d: "distinct (windowLayerOrder s)"
    and i: "i < length (document s)"
    and cover: "set (visible_ids s) \<subseteq> insert (getWindowId (document s ! i)) (set (windowLayerOrder s))"
    and ns: "data_window (document s ! i) \<notin> set (recentlyClosedWindows s)"
  shows "inv_cover (focusWindow i s)"
  using i ns cover_refocus [OF cover_bring [OF wf d i cover]] by (simp add: focusWindow_unfold)

lemma exact_focus_gen:
  assumes wf: "wf_document (document s)" and d: "distinct (windowLayerOrder s)"
    and i: "i < length (document s)"
    and exact: "set (windowLayerOrder s) \<subseteq> insert (getWindowId (document s ! i)) (set (visible_ids s))"
    and ns: "data_window (document s ! i) \<notin> set (recentlyClosedWindows s)"
  shows "set (windowLayerOrder (focusWindow i s)) \<subseteq> set (visible_ids (focusWindow i s))"
  using i ns exact_bring [OF wf d i exact] by (simp add: focusWindow_unfold)

lemma cover_focus: "inv_cover s \<Longrightarrow> inv_cover (focusWindow i s)"
proof -
  assume a: "inv_cover s"
  show ?thesis
  proof (cases "\<not> i < length (document s) \<or> data_window (document s ! i) \<in> set (recentlyClosedWindows s)")
    case True
    with a show ?thesis by (simp add: focusWindow_unfold)
  next
    case False
    with a show ?thesis
      by (intro cover_focus_gen) (auto simp: inv_cover_def)
  qed
qed

lemma npm_updates [simp]:
  "no_pending_minimize (refocus i s) = no_pending_minimize s"
  "no_pending_minimize (bringWindowToFront i b s) = no_pending_minimize s"
  "no_pending_minimize (focusWindow i s) = no_pending_minimize s"
  "no_pending_minimize (openWindow k s) = no_pending_minimize s"
  "no_pending_minimize (s\<lparr>popup_visible := p\<rparr>) = no_pending_minimize s"
  by (simp_all add: no_pending_minimize_def)

lemma npm_close: "no_pending_minimize s \<Longrightarrow> no_pending_minimize (closeWindow i s)"
  by (cases "i < length (document s)") (auto simp: no_pending_minimize_def close_fields)

lemma exact_focus: "inv_exact s \<Longrightarrow> inv_exact (focusWindow i s)"
proof -
  assume a: "inv_exact s"
  show ?thesis
  proof (cases "\<not> i < length (document s) \<or> data_window (document s ! i) \<in> set (recentlyClosedWindows s)")
    case True
    with a show ?thesis by (simp add: focusWindow_unfold)
  next
    case False
    have "set (windowLayerOrder (focusWindow i s)) \<subseteq> set (visible_ids (focusWindow i s))"
      using a False by (intro exact_focus_gen) (auto simp: inv_exact_def inv_cover_def)
    with a cover_focus [of s i] show ?thesis by (simp add: inv_exact_def)
  qed
qed

lemma cover_front: "inv_cover s \<Longrightarrow> inv_cover (bringWindowToFront i b s)"
proof -
  assume a: "inv_cover s"
  show ?thesis
  proof (cases "i < length (document s)")
    case False
    with a show ?thesis by simp
  next
    case True
    with a show ?thesis by (intro cover_bring) (auto simp: inv_cover_def)
  qed
qed

lemma exact_front: "inv_exact s \<Longrightarrow> inv_exact (bringWindowToFront i b s)"
proof -
  assume a: "inv_exact s"
  show ?thesis
  proof (cases "i < length (document s)")
    case False
    with a show ?thesis by simp
  next
    case True
    have "set (windowLayerOrder (bringWindowToFront i b s)) \<subseteq> set (visible_ids (bringWindowToFront i b s))"
      using a True by (intro exact_bring) (auto simp: inv_exact_def inv_cover_def)
    with a cover_front [of s i b] show ?thesis by (simp add: inv_exact_def)
  qed
qed

lemma activate_nth:
  "i < length (document s) \<Longrightarrow>
     document (activate i s) ! i = classList_add ''active'' (document s ! i)"
  by (simp add: activate_def)

lemma activate_more_fields [simp]:
  "recentlyClosedWindows (activate i s) = recentlyClosedWindows s"
  "activeWindows (activate i s) = activeWindows s"
  "timers (activate i s) = timers s"
  "clock (activate i s) = clock s"
  by (simp_all add: activate_def)

lemma cover_open: "inv_cover s \<Longrightarrow> inv_cover (openWindow k s)"
proof -
  assume a: "inv_cover s"
  then have wf: "wf_document (document s)" and d: "distinct (windowLayerOrder s)"
    and c: "set (visible_ids s) \<subseteq> set (windowLayerOrder s)"
    by (simp_all add: inv_cover_def)
  show ?thesis
  proof (cases "querySelector_data_window k (document s)")
    case None
    with a show ?thesis by (simp add: openWindow_unfold)
  next
    case (Some i)
    then have i: "i < length (document s)" and dw: "data_window (document s ! i) = Some k"
      by (simp_all add: querySelector_SomeD)
    let ?s0 = "s\<lparr>activeWindows := set_add (Some k) (activeWindows s)\<rparr>"
    let ?t = "activate i ?s0"
    have "inv_cover (focusWindow i ?t)"
      if ns: "Some k \<notin> set (recentlyClosedWindows s)"
    proof (rule cover_focus_gen)
      show "wf_document (document ?t)"
        using activate_same_static [of i ?s0] wf by (auto intro: wf_document_same_static)
      show "distinct (windowLayerOrder ?t)" using d by simp
      show "i < length (document ?t)" using i by simp
      show "set (visible_ids ?t) \<subseteq> insert (getWindowId (document ?t ! i)) (set (windowLayerOrder ?t))"
        using activate_visible [of ?s0 i] wf i c by (auto simp: activate_nth)
      show "data_window (document ?t ! i) \<notin> set (recentlyClosedWindows ?t)"
        using ns i dw by (simp add: activate_nth)
    qed
    with a Some show ?thesis
      by (simp add: openWindow_unfold cover_focus)
  qed
qed

lemma exact_open: "inv_exact s \<Longrightarrow> inv_exact (openWindow k s)"
proof -
  assume a: "inv_exact s"
  then have wf: "wf_document (document s)" and d: "distinct (windowLayerOrder s)"
    and c: "set (windowLayerOrder s) \<subseteq> set (visible_ids s)" and ic: "inv_cover s"
    by (simp_all add: inv_exact_def inv_cover_def)
  have "set (windowLayerOrder (openWindow k s)) \<subseteq> set (visible_ids (openWindow k s))"
  proof (cases "querySelector_data_window k (document s)")
    case None
    with c show ?thesis by (simp add: openWindow_unfold)
  next
    case (Some i)
    then have i: "i < length (document s)" and dw: "data_window (document s ! i) = Some k"
      by (simp_all add: querySelector_SomeD)
    let ?s0 = "s\<lparr>activeWindows := set_add (Some k) (activeWindows s)\<rparr>"
    let ?t = "activate i ?s0"
    have "set (windowLayerOrder (focusWindow i ?t)) \<subseteq> set (visible_ids (focusWindow i ?t))"
      if ns: "Some k \<notin> set (recentlyClosedWindows s)"
    proof (rule exact_focus_gen)
      show "wf_document (document ?t)"
        using activate_same_static [of i ?s0] wf by (auto intro: wf_document_same_static)
      show "distinct (windowLayerOrder ?t)" using d by simp
      show "i < length (document ?t)" using i by simp
      show "set (windowLayerOrder ?t) \<subseteq> insert (getWindowId (document ?t ! i)) (set (visible_ids ?t))"
        using activate_visible [of ?s0 i] wf i c by (auto simp: activate_nth)
      show "data_window (document ?t ! i) \<notin> set (recentlyClosedWindows ?t)"
        using ns i dw by (simp add: activate_nth)
    qed
    moreover have "set (windowLayerOrder (focusWindow i s)) \<subseteq> set (visible_ids (focusWindow i s))"
      using exact_focus [OF a, of i] by (simp add: inv_exact_def)
    ultimately show ?thesis
      using Some c by (simp add: openWindow_unfold)
  qed
  with a cover_open [OF ic, of k] show ?thesis by (simp add: inv_exact_def)
qed

lemma cover_close: "inv_cover s \<Longrightarrow> inv_cover (closeWindow i s)"
proof -
  assume a: "inv_cover s"
  then have wf: "wf_document (document s)" and d: "distinct (windowLayerOrder s)"
    and c: "set (visible_ids s) \<subseteq> set (windowLayerOrder s)"
    by (simp_all add: inv_cover_def)
  show ?thesis
  proof (cases "i < length (document s)")
    case False
    with a show ?thesis by simp
  next
    case True
    show ?thesis
      unfolding inv_cover_def
    proof (intro conjI)
      show "wf_document (document (closeWindow i s))"
        using close_same_static wf by (rule wf_document_same_static)
      show "distinct (windowLayerOrder (closeWindow i s))" using d by (rule close_distinct)
      show "set (visible_ids (closeWindow i s)) \<subseteq> set (windowLayerOrder (closeWindow i s))"
        using c by (auto simp: close_visible [OF wf True] close_order_set [OF wf d True])
    qed
  qed
qed

lemma exact_close: "inv_exact s \<Longrightarrow> inv_exact (closeWindow i s)"
proof -
  assume a: "inv_exact s"
  then have wf: "wf_document (document s)" and d: "distinct (windowLayerOrder s)"
    and c: "set (windowLayerOrder s) \<subseteq> set (visible_ids s)" and ic: "inv_cover s"
    and npm: "no_pending_minimize s"
    by (simp_all add: inv_exact_def inv_cover_def)
  have "set (windowLayerOrder (closeWindow i s)) \<subseteq> set (visible_ids (closeWindow i s))"
  proof (cases "i < length (document s)")
    case False
    with c show ?thesis by simp
  next
    case True
    show ?thesis
      using c by (auto simp: close_visible [OF wf True] close_order_set [OF wf d True])
  qed
  with cover_close [OF ic, of i] npm_close [OF npm, of i] show ?thesis
    by (simp add: inv_exact_def)
qed

lemma cover_advance: "inv_cover s \<Longrightarrow> inv_cover (advance dt s)"
proof -
  assume a: "inv_cover s"
  then have wf: "wf_document (document s)" and d: "distinct (windowLayerOrder s)"
    and c: "set (visible_ids s) \<subseteq> set (windowLayerOrder s)"
    by (simp_all add: inv_cover_def)
  have "set (visible_ids (advance dt s)) \<subseteq> set (visible_ids s)"
    using wf advance_same_static by (rule visible_set_subset) (rule advance_active)
  with c d wf_document_same_static [OF advance_same_static wf, of dt]
  show ?thesis by (auto simp: inv_cover_def)
qed

lemma exact_advance: "inv_exact s \<Longrightarrow> inv_exact (advance dt s)"
proof -
  assume a: "inv_exact s"
  then have npm: "no_pending_minimize s" and ic: "inv_cover s"
    and c: "set (windowLayerOrder s) \<subseteq> set (visible_ids s)"
    by (simp_all add: inv_exact_def)
  have "visible_ids (advance dt s) = visible_ids s"
    by (simp add: visible_ids_def advance_no_minimize(1) [OF npm])
  with c cover_advance [OF ic, of dt] advance_no_minimize(3) [OF npm, of dt]
  show ?thesis by (simp add: inv_exact_def)
qed

lemma exact_initial:
  assumes "wf_document doc" and "\<forall>e \<in> set doc. \<not> has_class ''active'' e"
  shows "inv_exact (initial_state doc)"
proof -
  have "set (visible_ids (initial_state doc)) = {}"
    using assms by (subst visible_set_wf) (auto simp: initial_state_def)
  then show ?thesis
    using assms(1)
    by (simp add: inv_exact_def inv_cover_def no_pending_minimize_def) (simp add: initial_state_def)
qed

lemma reachable_cover: "reachable m s \<Longrightarrow> inv_cover s"
proof (induction rule: reachable.induct)
  case (start doc)
  then show ?case using exact_initial by (simp add: inv_exact_def)
next
  case (op_open s appName)
  then show ?case by (simp add: cover_open)
next
  case (op_close s i)
  then show ?case by (simp add: cover_close)
next
  case (op_focus s i)
  then show ?case by (simp add: cover_focus)
next
  case (op_front s i d)
  then show ?case by (simp add: cover_front)
next
  case (op_minimize s i)
  then show ?case by (simp add: inv_cover_def)
next
  case (op_time s dt)
  then show ?case by (simp add: cover_advance)
next
  case (op_popup s b)
  then show ?case by (simp add: inv_cover_def)
qed

lemma reachable_exact: "reachable False s \<Longrightarrow> inv_exact s"
proof (induction rule: reachable.induct)
  case (start doc)
  then show ?case by (rule exact_initial)
next
  case (op_open s appName)
  then show ?case by (simp add: exact_open)
next
  case (op_close s i)
  then show ?case by (simp add: exact_close)
next
  case (op_focus s i)
  then show ?case by (simp add: exact_focus)
next
  case (op_front s i d)
  then show ?case by (simp add: exact_front)
next
  case (op_minimize s i)
  then show ?case by simp
next
  case (op_time s dt)
  then show ?case by (simp add: exact_advance)
next
  case (op_popup s b)
  then show ?case by (simp add: inv_exact_def inv_cover_def)
qed

subsection \<open>What a focus and an open achieve\<close>

lemma same_static_id:
  "same_static d d' \<Longrightarrow> j < length d \<Longrightarrow> getWindowId (d ! j) = getWindowId (d' ! j)"
  unfolding same_static_def by (metis getWindowId_static)

lemma focus_succeeds_gen:
  assumes wf: "wf_document (document s)" and d: "distinct (windowLayerOrder s)"
    and i: "i < length (document s)"
    and cover: "set (visible_ids s) \<subseteq> insert (getWindowId (document s ! i)) (set (windowLayerOrder s))"
    and ns: "data_window (document s ! i) \<notin> set (recentlyClosedWindows s)"
  shows "has_class ''active'' (document (focusWindow i s) ! i)"
    and "has_class ''focused'' (document (focusWindow i s) ! i)"
    and "\<exists>xs. windowLayerOrder (focusWindow i s) = xs @ [getWindowId (document s ! i)]"
    and "\<not> popup_visible s \<Longrightarrow>
           set (windowLayerOrder (focusWindow i s)) = set (visible_ids (focusWindow i s))"
proof -
  have f: "focusWindow i s = refocus i (bringWindowToFront i False s)"
    using i ns by (simp add: focusWindow_unfold)
  show "has_class ''active'' (document (focusWindow i s) ! i)"
    using i by (simp add: f refocus_nth bring_nth)
  show "has_class ''focused'' (document (focusWindow i s) ! i)"
    using i by (simp add: f refocus_nth)
  show "\<exists>xs. windowLayerOrder (focusWindow i s) = xs @ [getWindowId (document s ! i)]"
    using bring_order_last [OF wf d i cover] by (simp add: f)
  show "set (windowLayerOrder (focusWindow i s)) = set (visible_ids (focusWindow i s))"
    if "\<not> popup_visible s"
    using that by (simp add: f bring_order_set [OF wf d i] bring_visible [OF wf i])
qed

lemma focus_succeeds:
  assumes "inv_cover s" and "i < length (document s)"
    and "data_window (document s ! i) \<notin> set (recentlyClosedWindows s)"
  shows "has_class ''active'' (document (focusWindow i s) ! i)"
    and "has_class ''focused'' (document (focusWindow i s) ! i)"
    and "\<exists>xs. windowLayerOrder (focusWindow i s) = xs @ [getWindowId (document s ! i)]"
    and "\<not> popup_visible s \<Longrightarrow>
           set (windowLayerOrder (focusWindow i s)) = set (visible_ids (focusWindow i s))"
proof -
  from assms(1) have wf: "wf_document (document s)" and d: "distinct (windowLayerOrder s)"
    and c: "set (visible_ids s) \<subseteq> insert (getWindowId (document s ! i)) (set (windowLayerOrder s))"
    by (auto simp: inv_cover_def)
  show "has_class ''active'' (document (focusWindow i s) ! i)"
    and "has_class ''focused'' (document (focusWindow i s) ! i)"
    and "\<exists>xs. windowLayerOrder (focusWindow i s) = xs @ [getWindowId (document s ! i)]"
    and "\<not> popup_visible s \<Longrightarrow>
           set (windowLayerOrder (focusWindow i s)) = set (visible_ids (focusWindow i s))"
    using focus_succeeds_gen [OF wf d assms(2) c assms(3)] by blast+
qed

lemma open_succeeds:
  assumes ic: "inv_cover s" and q: "querySelector_data_window k (document s) = Some i"
    and ns: "Some k \<notin> set (recentlyClosedWindows s)"
  shows "has_class ''active'' (document (openWindow k s) ! i)"
    and "has_class ''focused'' (document (openWindow k s) ! i)"
    and "Some k \<in> set (activeWindows (openWindow k s))"
    and "\<exists>xs. windowLayerOrder (openWindow k s) = xs @ [getWindowId (document s ! i)]"
    and "\<not> popup_visible s \<Longrightarrow>
           set (windowLayerOrder (openWindow k s)) = set (visible_ids (openWindow k s))"
proof -
  from q have i: "i < length (document s)" and dw: "data_window (document s ! i) = Some k"
    by (simp_all add: querySelector_SomeD)
  from ic have wf: "wf_document (document s)" and d: "distinct (windowLayerOrder s)"
    and c: "set (visible_ids s) \<subseteq> set (windowLayerOrder s)"
    by (simp_all add: inv_cover_def)
  let ?s0 = "s\<lparr>activeWindows := set_add (Some k) (activeWindows s)\<rparr>"
  let ?t = "activate i ?s0"
  have wft: "wf_document (document ?t)"
    using activate_same_static [of i ?s0] wf by (auto intro: wf_document_same_static)
  have dt: "distinct (windowLayerOrder ?t)" using d by simp
  have it: "i < length (document ?t)" using i by simp
  have idt: "getWindowId (document ?t ! i) = getWindowId (document s ! i)"
    using i by (simp add: activate_nth)
  have ct: "set (visible_ids ?t) \<subseteq> insert (getWindowId (document ?t ! i)) (set (windowLayerOrder ?t))"
    using activate_visible [of ?s0 i] wf i c by (auto simp: activate_nth)
  have nst: "data_window (document ?t ! i) \<notin> set (recentlyClosedWindows ?t)"
    using ns i dw by (simp add: activate_nth)
  note new = focus_succeeds_gen [OF wft dt it ct nst]
  have nss: "data_window (document s ! i) \<notin> set (recentlyClosedWindows s)"
    using ns dw by simp
  note old = focus_succeeds [OF ic i nss]
  show "has_class ''active'' (document (openWindow k s) ! i)"
    using q ns new(1) old(1) by (simp add: openWindow_unfold)
  show "has_class ''focused'' (document (openWindow k s) ! i)"
    using q ns new(2) old(2) by (simp add: openWindow_unfold)
  show "Some k \<in> set (activeWindows (openWindow k s))"
    using q ns by (simp add: openWindow_unfold)
  show "\<exists>xs. windowLayerOrder (openWindow k s) = xs @ [getWindowId (document s ! i)]"
    using q ns new(3) old(3) by (simp add: openWindow_unfold idt)
  show "set (windowLayerOrder (openWindow k s)) = set (visible_ids (openWindow k s))"
    if "\<not> popup_visible s"
    using q ns new(4) old(4) that by (simp add: openWindow_unfold)
qed

subsection \<open>Suppression, repeated opens\<close>

lemma wf_distinct_visible: "wf_document (document s) \<Longrightarrow> distinct (visible_ids s)"
  unfolding visible_ids_alt wf_document_def by (simp add: distinct_map_filter)

text \<open>
  C3 (as the code has it). Let \<open>i\<close> be the window that \<open>open(appKey)\<close> finds, in a
  reachable state where no release of \<open>appKey\<close> from an earlier close is still pending.
  After \<open>closeWindow\<close> of that window, an \<open>openWindow(appKey)\<close> or a
  \<open>focusWindow\<close> of it issued less than 200ms later returns the state unchanged. Once
  200ms have passed, \<open>appKey\<close> is no longer suppressed: \<open>openWindow(appKey)\<close> shows
  the window, focuses it, records it as active and puts its id last (front-most) in the
  layer order, and \<open>focusWindow\<close> shows and focuses it and puts its id last.
\<close>

theorem suppression_law:
  assumes r: "reachable m s"
    and q: "querySelector_data_window appKey (document s) = Some i"
    and fresh: "\<forall>t \<in> set (timers s). snd t \<noteq> Release_closed (Some appKey)"
  shows "(dt < 200 \<longrightarrow>
            openWindow appKey (advance dt (closeWindow i s)) = advance dt (closeWindow i s) \<and>
            focusWindow i (advance dt (closeWindow i s)) = advance dt (closeWindow i s)) \<and>
         (200 \<le> dt \<longrightarrow>
            Some appKey \<notin> set (recentlyClosedWindows (advance dt (closeWindow i s))) \<and>
            has_class ''active'' (document (openWindow appKey (advance dt (closeWindow i s))) ! i) \<and>
            has_class ''focused'' (document (openWindow appKey (advance dt (closeWindow i s))) ! i) \<and>
            Some appKey \<in> set (activeWindows (openWindow appKey (advance dt (closeWindow i s)))) \<and>
            last (windowLayerOrder (openWindow appKey (advance dt (closeWindow i s))))
              = getWindowId (document s ! i) \<and>
            has_class ''active'' (document (focusWindow i (advance dt (closeWindow i s))) ! i) \<and>
            has_class ''focused'' (document (focusWindow i (advance dt (closeWindow i s))) ! i) \<and>
            last (windowLayerOrder (focusWindow i (advance dt (closeWindow i s))))
              = getWindowId (document s ! i))"
proof -
  let ?c = "closeWindow i s"
  let ?a = "advance dt ?c"
  from q have i: "i < length (document s)" and dw: "data_window (document s ! i) = Some appKey"
    by (simp_all add: querySelector_SomeD)
  have ss: "same_static (document ?a) (document s)"
    using advance_same_static close_same_static by (rule same_static_trans)
  have ia: "i < length (document ?a)" using i by simp
  have dwa: "data_window (document ?a ! i) = Some appKey"
    using same_static_data_window [OF ss ia] dw by simp
  have ida: "getWindowId (document ?a ! i) = getWindowId (document s ! i)"
    using ss ia by (rule same_static_id)
  have qa: "querySelector_data_window appKey (document ?a) = Some i"
    using querySelector_same_static [OF ss] q by simp
  have ica: "inv_cover ?a"
    using r by (intro cover_advance cover_close reachable_cover)
  have tc: "timers ?c = timers s @ [(clock s + 200, Release_closed (Some appKey))]"
    and rc: "Some appKey \<in> set (recentlyClosedWindows ?c)"
    using i dw by (simp_all add: close_fields)
  let ?s' = "?c\<lparr>clock := clock ?c + dt,
      timers := filter (\<lambda>(d, c). \<not> d \<le> clock ?c + dt) (timers ?c)\<rparr>"
  have early: "Some appKey \<in> set (recentlyClosedWindows ?a)" if "dt < 200"
  proof -
    have "\<forall>t \<in> set (due_timers dt ?c). snd t \<noteq> Release_closed (Some appKey)"
      using fresh that by (auto simp: set_due_timers tc)
    moreover have "Some appKey \<in> set (recentlyClosedWindows ?s')" using rc by simp
    ultimately have "Some appKey \<in> set (recentlyClosedWindows (run_timers (due_timers dt ?c) ?s'))"
      by (intro run_timers_closed_keep)
    then show ?thesis by (simp only: advance_unfold simp_thms)
  qed
  have late: "Some appKey \<notin> set (recentlyClosedWindows ?a)" if "200 \<le> dt"
  proof -
    have "(clock s + 200, Release_closed (Some appKey)) \<in> set (due_timers dt ?c)"
      using that by (simp add: set_due_timers tc)
    then have "Some appKey \<notin> set (recentlyClosedWindows (run_timers (due_timers dt ?c) ?s'))"
      by (rule run_timers_closed_released)
    then show ?thesis by (simp only: advance_unfold simp_thms)
  qed
  have p1: "openWindow appKey ?a = ?a \<and> focusWindow i ?a = ?a" if "dt < 200"
    using early [OF that] qa dwa ia by (simp add: openWindow_unfold focusWindow_unfold)
  have p2: "Some appKey \<notin> set (recentlyClosedWindows ?a) \<and>
            has_class ''active'' (document (openWindow appKey ?a) ! i) \<and>
            has_class ''focused'' (document (openWindow appKey ?a) ! i) \<and>
            Some appKey \<in> set (activeWindows (openWindow appKey ?a)) \<and>
            last (windowLayerOrder (openWindow appKey ?a)) = getWindowId (document s ! i) \<and>
            has_class ''active'' (document (focusWindow i ?a) ! i) \<and>
            has_class ''focused'' (document (focusWindow i ?a) ! i) \<and>
            last (windowLayerOrder (focusWindow i ?a)) = getWindowId (document s ! i)"
    if "200 \<le> dt"
  proof -
    note ns = late [OF that]
    have nsf: "data_window (document ?a ! i) \<notin> set (recentlyClosedWindows ?a)"
      using ns dwa by simp
    note o = open_succeeds [OF ica qa ns]
    note f = focus_succeeds [OF ica ia nsf]
    from o(4) have "last (windowLayerOrder (openWindow appKey ?a)) = getWindowId (document s ! i)"
      by (auto simp: ida)
    moreover from f(3) have "last (windowLayerOrder (focusWindow i ?a)) = getWindowId (document s ! i)"
      by (auto simp: ida)
    ultimately show ?thesis using ns o(1,2,3) f(1,2) by blast
  qed
  show ?thesis using p1 p2 by blast
qed



lemma run_timers_inactive:
  "(d, Finish_minimize i k) \<in> set cs \<Longrightarrow> k \<notin> set (activeWindows (run_timers cs s))"
proof (induction cs arbitrary: s)
  case Nil
  then show ?case by simp
next
  case (Cons c cs)
  obtain due callback where c: "c = (due, callback)" by (cases c)
  show ?case
  proof (cases "c = (d, Finish_minimize i k)")
    case True
    then have "k \<notin> set (activeWindows (run_timer callback s))" by (auto simp: c)
    with run_timers_active_subset [of cs "run_timer callback s"] show ?thesis
      by (auto simp: c)
  next
    case False
    with Cons.prems have "(d, Finish_minimize i k) \<in> set cs" by simp
    from Cons.IH [OF this] show ?thesis by (simp add: c)
  qed
qed

subsection \<open>Concrete cases\<close>

lemma reachable_initial_two_windows: "reachable m (initial_state two_windows)"
  by (rule reachable.start)
     (simp_all add: two_windows_def wf_document_def app_window_def getWindowId_def present_def
        has_class_def)

lemma reachable_desk: "reachable m desk"
  unfolding desk_def by (intro reachable.op_open reachable_initial_two_windows)

theorem popup_freeze_witness:
  "popup_visible (desk\<lparr>popup_visible := True\<rparr>) \<and>
   recalculateWindowLayers (desk\<lparr>popup_visible := True\<rparr>) = desk\<lparr>popup_visible := True\<rparr> \<and>
   windowLayerOrder (recalculateWindowLayers
      (desk\<lparr>popup_visible := True, windowLayerOrder := [''projects'', ''about'']\<rparr>))
     = [''projects'', ''about''] \<and>
   map z_index (document (recalculateWindowLayers
      (desk\<lparr>popup_visible := True, windowLayerOrder := [''projects'', ''about'']\<rparr>)))
     = [Some 100000, Some 100010]"
proof -
  have "recalculateWindowLayers (desk\<lparr>popup_visible := True\<rparr>) = desk\<lparr>popup_visible := True\<rparr>"
    using popup_freeze [of "desk\<lparr>popup_visible := True\<rparr>"] by simp
  moreover have "windowLayerOrder (recalculateWindowLayers
      (desk\<lparr>popup_visible := True, windowLayerOrder := [''projects'', ''about'']\<rparr>))
     = [''projects'', ''about'']"
    by code_simp
  moreover have "map z_index (document (recalculateWindowLayers
      (desk\<lparr>popup_visible := True, windowLayerOrder := [''projects'', ''about'']\<rparr>)))
     = [Some 100000, Some 100010]"
    by code_simp
  ultimately show ?thesis by simp
qed

theorem monotonic_z_index_witness:
  "\<not> popup_visible (desk\<lparr>windowLayerOrder := [''projects'', ''about'']\<rparr>) \<and>
   distinct (windowLayerOrder (desk\<lparr>windowLayerOrder := [''projects'', ''about'']\<rparr>)) \<and>
   distinct (visible_ids (desk\<lparr>windowLayerOrder := [''projects'', ''about'']\<rparr>)) \<and>
   windowLayerOrder (recalculateWindowLayers (desk\<lparr>windowLayerOrder := [''projects'', ''about'']\<rparr>))
     = [''projects'', ''about''] \<and>
   zIndex_of (recalculateWindowLayers (desk\<lparr>windowLayerOrder := [''projects'', ''about'']\<rparr>))
       ''projects'' = Some 100000 \<and>
   zIndex_of (recalculateWindowLayers (desk\<lparr>windowLayerOrder := [''projects'', ''about'']\<rparr>))
       ''about'' = Some 100010 \<and>
   map z_index (document (recalculateWindowLayers (desk\<lparr>windowLayerOrder := [''projects'', ''about'']\<rparr>)))
     = [Some 100010, Some 100000]"
proof -
  let ?s = "desk\<lparr>windowLayerOrder := [''projects'', ''about'']\<rparr>"
  have h: "\<not> popup_visible ?s" "distinct (windowLayerOrder ?s)" "distinct (visible_ids ?s)"
    by code_simp+
  have o: "windowLayerOrder (recalculateWindowLayers ?s) = [''projects'', ''about'']"
    by code_simp
  have z: "map z_index (document (recalculateWindowLayers ?s)) = [Some 100010, Some 100000]"
    by code_simp
  have at: "zIndex_of (recalculateWindowLayers ?s) (windowLayerOrder (recalculateWindowLayers ?s) ! p)
              = Some (100000 + int p * 10)"
    if "p < length (windowLayerOrder (recalculateWindowLayers ?s))" for p
    using monotonic_z_index [OF h] that by blast
  have "zIndex_of (recalculateWindowLayers ?s) ''projects'' = Some 100000"
    using at [of 0] by (simp add: o)
  moreover have "zIndex_of (recalculateWindowLayers ?s) ''about'' = Some 100010"
    using at [of 1] by (simp add: o)
  ultimately show ?thesis using h o z by simp
qed

theorem suppression_law_witness:
  "reachable True desk \<and>
   querySelector_data_window ''about'' (document desk) = Some 0 \<and>
   timers desk = [] \<and>
   windowLayerOrder (closeWindow 0 desk) = [''projects''] \<and>
   recentlyClosedWindows (advance 199 (closeWindow 0 desk)) = [Some ''about''] \<and>
   openWindow ''about'' (advance 199 (closeWindow 0 desk)) = advance 199 (closeWindow 0 desk) \<and>
   focusWindow 0 (advance 199 (closeWindow 0 desk)) = advance 199 (closeWindow 0 desk) \<and>
   recentlyClosedWindows (advance 200 (closeWindow 0 desk)) = [] \<and>
   windowLayerOrder (openWindow ''about'' (advance 200 (closeWindow 0 desk)))
     = [''projects'', ''about''] \<and>
   visible_ids (openWindow ''about'' (advance 200 (closeWindow 0 desk))) = [''about'', ''projects''] \<and>
   windowLayerOrder (focusWindow 0 (advance 200 (closeWindow 0 desk))) = [''projects'', ''about'']"
proof -
  have r: "reachable True desk" by (rule reachable_desk)
  have q: "querySelector_data_window ''about'' (document desk) = Some 0" by code_simp
  have t: "timers desk = []" by code_simp
  then have fresh: "\<forall>t \<in> set (timers desk). snd t \<noteq> Release_closed (Some ''about'')" by simp
  have early: "openWindow ''about'' (advance 199 (closeWindow 0 desk)) = advance 199 (closeWindow 0 desk)"
    "focusWindow 0 (advance 199 (closeWindow 0 desk)) = advance 199 (closeWindow 0 desk)"
    using suppression_law [OF r q fresh, of 199] by simp_all
  have e: "windowLayerOrder (closeWindow 0 desk) = [''projects'']"
    "recentlyClosedWindows (advance 199 (closeWindow 0 desk)) = [Some ''about'']"
    "recentlyClosedWindows (advance 200 (closeWindow 0 desk)) = []"
    "windowLayerOrder (openWindow ''about'' (advance 200 (closeWindow 0 desk)))
       = [''projects'', ''about'']"
    "visible_ids (openWindow ''about'' (advance 200 (closeWindow 0 desk))) = [''about'', ''projects'']"
    "windowLayerOrder (focusWindow 0 (advance 200 (closeWindow 0 desk))) = [''projects'', ''about'']"
    by code_simp+
  show ?thesis using r q t early e by simp
qed

text \<open>
  C3 as stated fails when the window is closed twice within the cooldown: the timer of
  the first close releases the application 200ms after the first close, so an open 100ms
  after the second close is not suppressed.
\<close>

theorem suppression_law_counterexample:
  "clock (advance 150 (closeWindow 0 desk)) = 150 \<and>
   clock (advance 100 (closeWindow 0 (advance 150 (closeWindow 0 desk)))) = 250 \<and>
   recentlyClosedWindows (closeWindow 0 (advance 150 (closeWindow 0 desk))) = [Some ''about''] \<and>
   recentlyClosedWindows (advance 100 (closeWindow 0 (advance 150 (closeWindow 0 desk)))) = [] \<and>
   visible_ids (advance 100 (closeWindow 0 (advance 150 (closeWindow 0 desk)))) = [''projects''] \<and>
   visible_ids (openWindow ''about'' (advance 100 (closeWindow 0 (advance 150 (closeWindow 0 desk)))))
     = [''about'', ''projects''] \<and>
   openWindow ''about'' (advance 100 (closeWindow 0 (advance 150 (closeWindow 0 desk))))
     \<noteq> advance 100 (closeWindow 0 (advance 150 (closeWindow 0 desk)))"
proof -
  have e: "clock (advance 150 (closeWindow 0 desk)) = 150"
    "clock (advance 100 (closeWindow 0 (advance 150 (closeWindow 0 desk)))) = 250"
    "recentlyClosedWindows (closeWindow 0 (advance 150 (closeWindow 0 desk))) = [Some ''about'']"
    "recentlyClosedWindows (advance 100 (closeWindow 0 (advance 150 (closeWindow 0 desk)))) = []"
    "visible_ids (advance 100 (closeWindow 0 (advance 150 (closeWindow 0 desk)))) = [''projects'']"
    "visible_ids (openWindow ''about'' (advance 100 (closeWindow 0 (advance 150 (closeWindow 0 desk)))))
       = [''about'', ''projects'']"
    by code_simp+
  have "openWindow ''about'' (advance 100 (closeWindow 0 (advance 150 (closeWindow 0 desk))))
     \<noteq> advance 100 (closeWindow 0 (advance 150 (closeWindow 0 desk)))"
  proof
    assume "openWindow ''about'' (advance 100 (closeWindow 0 (advance 150 (closeWindow 0 desk))))
      = advance 100 (closeWindow 0 (advance 150 (closeWindow 0 desk)))"
    then have "visible_ids (openWindow ''about'' (advance 100 (closeWindow 0 (advance 150 (closeWindow 0 desk)))))
      = visible_ids (advance 100 (closeWindow 0 (advance 150 (closeWindow 0 desk))))"
      by simp
    then show False unfolding e by simp
  qed
  with e show ?thesis by simp
qed


subsection \<open>No duplicates, whatever the document\<close>

lemma focus_distinct:
  "distinct (windowLayerOrder s) \<Longrightarrow> distinct (windowLayerOrder (focusWindow i s))"
  by (simp add: focusWindow_unfold bring_distinct)

lemma open_distinct:
  "distinct (windowLayerOrder s) \<Longrightarrow> distinct (windowLayerOrder (openWindow k s))"
  by (auto simp: openWindow_unfold intro!: focus_distinct split: option.splits)

lemma close_sticker_distinct:
  "distinct (windowLayerOrder s) \<Longrightarrow> distinct (windowLayerOrder (closeStickerWindow i s))"
  by (auto simp: closeStickerWindow_def Let_def intro!: recalculate_distinct_order)

lemma program_reachable_distinct:
  "program_reachable s \<Longrightarrow> distinct (windowLayerOrder s)"
proof (induction rule: program_reachable.induct)
  case (boot doc)
  show ?case by (simp add: initial_state_def)
next
  case (do_open s appName)
  then show ?case by (simp add: open_distinct)
next
  case (do_close s i)
  then show ?case by (simp add: close_distinct)
next
  case (do_focus s i)
  then show ?case by (simp add: focus_distinct)
next
  case (do_front s i d)
  then show ?case by (simp add: bring_distinct)
next
  case (do_minimize s i)
  then show ?case by simp
next
  case (do_close_sticker s i)
  then show ?case by (simp add: close_sticker_distinct)
next
  case (do_time s dt)
  then show ?case by simp
next
  case (do_popup s b)
  then show ?case by simp
next
  case (do_dom s doc' active')
  then show ?case by simp
qed

text \<open>
  C1 (as the code has it). In every state of the program, reached by any sequence of open,
  close, focus, bring-to-front and minimize operations together with everything else the
  program does to its windows, the layer order has no duplicate ids. Every recalculation
  that runs (no popup visible) leaves a layer order without duplicates that holds exactly
  the ids of the windows visible then, each of them exactly once.
\<close>

theorem layer_order_invariant:
  "(program_reachable s \<longrightarrow> distinct (windowLayerOrder s)) \<and>
   (program_reachable s \<and> \<not> popup_visible s \<longrightarrow>
      distinct (windowLayerOrder (recalculateWindowLayers s)) \<and>
      set (windowLayerOrder (recalculateWindowLayers s))
        = set (visible_ids (recalculateWindowLayers s)) \<and>
      (\<forall>w \<in> set (visible_ids (recalculateWindowLayers s)).
         count_list (windowLayerOrder (recalculateWindowLayers s)) w = 1))"
proof -
  have a: "distinct (windowLayerOrder s)" if "program_reachable s"
    using that by (rule program_reachable_distinct)
  have b: "distinct (windowLayerOrder (recalculateWindowLayers s)) \<and>
      set (windowLayerOrder (recalculateWindowLayers s))
        = set (visible_ids (recalculateWindowLayers s)) \<and>
      (\<forall>w \<in> set (visible_ids (recalculateWindowLayers s)).
         count_list (windowLayerOrder (recalculateWindowLayers s)) w = 1)"
    if "program_reachable s" "\<not> popup_visible s"
  proof -
    let ?ord = "windowLayerOrder (recalculateWindowLayers s)"
    have d: "distinct ?ord" using a [OF that(1)] by (rule recalculate_distinct_order)
    have e: "set ?ord = set (visible_ids (recalculateWindowLayers s))"
      using that(2) by (simp add: recalculate_set_order)
    have "count_list ?ord w = 1" if "w \<in> set ?ord" for w
    proof -
      from that obtain xs ys where "?ord = xs @ w # ys" by (auto simp: in_set_conv_decomp)
      with d show ?thesis by auto
    qed
    with d e show ?thesis by simp
  qed
  show ?thesis using a b by blast
qed


subsection \<open>Pending timers\<close>

lemma minimize_timers:
  "timers (minimizeWindow i s) =
     (if i < length (document s)
      then timers s @ [(clock s + 400, Finish_minimize i (data_window (document s ! i)))]
      else timers s)"
  by (simp add: minimizeWindow_def Let_def)

lemma bounded_minimize: "timers_bounded s \<Longrightarrow> timers_bounded (minimizeWindow i s)"
  by (auto simp: timers_bounded_def minimize_timers)

lemma pending_minimize: "closed_pending s \<Longrightarrow> closed_pending (minimizeWindow i s)"
  by (auto simp: closed_pending_def minimize_timers)

lemma bounded_close: "timers_bounded s \<Longrightarrow> timers_bounded (closeWindow i s)"
  by (cases "i < length (document s)") (auto simp: timers_bounded_def close_fields)

lemma pending_close: "closed_pending s \<Longrightarrow> closed_pending (closeWindow i s)"
  by (cases "i < length (document s)") (auto simp: closed_pending_def close_fields)

lemma bounded_advance: "timers_bounded s \<Longrightarrow> timers_bounded (advance dt s)"
  by (auto simp: timers_bounded_def)

lemma pending_advance:
  assumes "closed_pending s"
  shows "closed_pending (advance dt s)"
  unfolding closed_pending_def
proof
  fix k assume k: "k \<in> set (recentlyClosedWindows (advance dt s))"
  with advance_closed_subset [of dt s] have "k \<in> set (recentlyClosedWindows s)" by auto
  with assms obtain d where d: "(d, Release_closed k) \<in> set (timers s)"
    by (auto simp: closed_pending_def)
  have "\<not> d \<le> clock s + dt"
  proof
    assume "d \<le> clock s + dt"
    with d have "(d, Release_closed k) \<in> set (due_timers dt s)" by (simp add: set_due_timers)
    then have "k \<notin> set (recentlyClosedWindows (run_timers (due_timers dt s)
        (s\<lparr>clock := clock s + dt,
           timers := filter (\<lambda>(d, c). \<not> d \<le> clock s + dt) (timers s)\<rparr>)))"
      by (rule run_timers_closed_released)
    with k show False by (simp only: advance_unfold simp_thms)
  qed
  with d show "\<exists>d. (d, Release_closed k) \<in> set (timers (advance dt s))" by auto
qed

lemma reachable_timers: "reachable m s \<Longrightarrow> timers_bounded s \<and> closed_pending s"
proof (induction rule: reachable.induct)
  case (start doc)
  show ?case by (simp add: timers_bounded_def closed_pending_def initial_state_def)
next
  case (op_open s appName)
  then show ?case by (simp add: timers_bounded_def closed_pending_def)
next
  case (op_close s i)
  then show ?case by (simp add: bounded_close pending_close)
next
  case (op_focus s i)
  then show ?case by (simp add: timers_bounded_def closed_pending_def)
next
  case (op_front s i d)
  then show ?case by (simp add: timers_bounded_def closed_pending_def)
next
  case (op_minimize s i)
  then show ?case by (simp add: bounded_minimize pending_minimize)
next
  case (op_time s dt)
  then show ?case by (simp add: bounded_advance pending_advance)
next
  case (op_popup s b)
  then show ?case by (simp add: timers_bounded_def closed_pending_def)
qed

lemma advance_all_due:
  assumes "timers_bounded s" and "closed_pending s" and "400 \<le> dt"
  shows "timers (advance dt s) = []" and "recentlyClosedWindows (advance dt s) = []"
proof -
  show t: "timers (advance dt s) = []"
    using assms(1,3) by (auto simp: timers_bounded_def filter_empty_conv)
  have nk: "k \<notin> set (recentlyClosedWindows (advance dt s))" for k
  proof
    assume "k \<in> set (recentlyClosedWindows (advance dt s))"
    with pending_advance [OF assms(2), of dt]
    obtain d where "(d, Release_closed k) \<in> set (timers (advance dt s))"
      unfolding closed_pending_def by blast
    then show False unfolding t by simp
  qed
  show "recentlyClosedWindows (advance dt s) = []"
  proof (cases "recentlyClosedWindows (advance dt s)")
    case Nil
    then show ?thesis .
  next
    case (Cons k ks)
    with nk [of k] show ?thesis by simp
  qed
qed

lemma advance_idle:
  "timers s = [] \<Longrightarrow> document (advance dt s) = document s"
  by (rule advance_no_minimize(1)) (simp add: no_pending_minimize_def)

text \<open>
  C9 (as the code has it). Let \<open>i\<close> be the window that \<open>open(appKey)\<close> finds in a
  reachable state. \<open>minimizeWindow\<close> only sets its 400ms timer: it changes neither the
  document nor \<open>recentlyClosedWindows\<close>, and the window stays in the document with its id
  and its \<open>data-window\<close> however much time passes. Once the 400ms have passed the window
  is hidden and no longer recorded as active, and nothing is suppressed. An
  \<open>openWindow(appKey)\<close> issued then, with no further wait, shows the window, focuses it,
  records it as active and puts its id at the front of the layer order, and the window
  stays shown as time passes.
\<close>

theorem minimize_without_suppression:
  assumes r: "reachable m s"
    and q: "querySelector_data_window appKey (document s) = Some i"
  shows "recentlyClosedWindows (minimizeWindow i s) = recentlyClosedWindows s \<and>
         document (minimizeWindow i s) = document s \<and>
         timers (minimizeWindow i s) = timers s @ [(clock s + 400, Finish_minimize i (Some appKey))] \<and>
         length (document (advance dt (minimizeWindow i s))) = length (document s) \<and>
         data_window (document (advance dt (minimizeWindow i s)) ! i) = Some appKey \<and>
         getWindowId (document (advance dt (minimizeWindow i s)) ! i) = getWindowId (document s ! i) \<and>
         (400 \<le> dt \<longrightarrow>
            \<not> has_class ''active'' (document (advance dt (minimizeWindow i s)) ! i) \<and>
            Some appKey \<notin> set (activeWindows (advance dt (minimizeWindow i s))) \<and>
            recentlyClosedWindows (advance dt (minimizeWindow i s)) = [] \<and>
            has_class ''active'' (document (openWindow appKey (advance dt (minimizeWindow i s))) ! i) \<and>
            has_class ''focused'' (document (openWindow appKey (advance dt (minimizeWindow i s))) ! i) \<and>
            Some appKey \<in> set (activeWindows (openWindow appKey (advance dt (minimizeWindow i s)))) \<and>
            last (windowLayerOrder (openWindow appKey (advance dt (minimizeWindow i s))))
              = getWindowId (document s ! i) \<and>
            has_class ''active''
              (document (advance dt' (openWindow appKey (advance dt (minimizeWindow i s)))) ! i))"
proof -
  let ?mi = "minimizeWindow i s"
  let ?a = "advance dt ?mi"
  from q have i: "i < length (document s)" and dw: "data_window (document s ! i) = Some appKey"
    by (simp_all add: querySelector_SomeD)
  have tm: "timers ?mi = timers s @ [(clock s + 400, Finish_minimize i (Some appKey))]"
    using i dw by (simp add: minimize_timers)
  have ss: "same_static (document ?a) (document s)"
    using advance_same_static [of dt ?mi] by simp
  have ia: "i < length (document ?a)" using i by simp
  have dwa: "data_window (document ?a ! i) = Some appKey"
    using same_static_data_window [OF ss ia] dw by simp
  have ida: "getWindowId (document ?a ! i) = getWindowId (document s ! i)"
    using ss ia by (rule same_static_id)
  have qa: "querySelector_data_window appKey (document ?a) = Some i"
    using querySelector_same_static [OF ss] q by simp
  have ica: "inv_cover ?a"
    using reachable_cover [OF r] by (intro cover_advance) (simp add: inv_cover_def)
  from reachable_timers [OF r] have tb: "timers_bounded ?mi" and cp: "closed_pending ?mi"
    by (simp_all add: bounded_minimize pending_minimize)
  let ?s' = "?mi\<lparr>clock := clock ?mi + dt,
      timers := filter (\<lambda>(d, c). \<not> d \<le> clock ?mi + dt) (timers ?mi)\<rparr>"
  have late: "\<not> has_class ''active'' (document ?a ! i) \<and>
            Some appKey \<notin> set (activeWindows ?a) \<and>
            recentlyClosedWindows ?a = [] \<and>
            has_class ''active'' (document (openWindow appKey ?a) ! i) \<and>
            has_class ''focused'' (document (openWindow appKey ?a) ! i) \<and>
            Some appKey \<in> set (activeWindows (openWindow appKey ?a)) \<and>
            last (windowLayerOrder (openWindow appKey ?a)) = getWindowId (document s ! i) \<and>
            has_class ''active'' (document (advance dt' (openWindow appKey ?a)) ! i)"
    if dt: "400 \<le> dt"
  proof -
    have due: "(clock s + 400, Finish_minimize i (Some appKey)) \<in> set (due_timers dt ?mi)"
      using dt by (simp add: set_due_timers tm)
    have "i < length (document ?s')" using i by simp
    with due have "\<not> has_class ''active'' (document (run_timers (due_timers dt ?mi) ?s') ! i)"
      by (rule run_timers_hidden)
    moreover from due have "Some appKey \<notin> set (activeWindows (run_timers (due_timers dt ?mi) ?s'))"
      by (rule run_timers_inactive)
    ultimately have hidden: "\<not> has_class ''active'' (document ?a ! i)"
      "Some appKey \<notin> set (activeWindows ?a)"
      by (simp_all only: advance_unfold simp_thms)
    note idle = advance_all_due [OF tb cp dt]
    have nsa: "Some appKey \<notin> set (recentlyClosedWindows ?a)" by (simp add: idle(2))
    note o = open_succeeds [OF ica qa nsa]
    from o(4) have lst: "last (windowLayerOrder (openWindow appKey ?a)) = getWindowId (document s ! i)"
      by (auto simp: ida)
    have "timers (openWindow appKey ?a) = []" using idle(1) by simp
    then have "document (advance dt' (openWindow appKey ?a)) = document (openWindow appKey ?a)"
      by (rule advance_idle)
    with o(1) have stay: "has_class ''active'' (document (advance dt' (openWindow appKey ?a)) ! i)"
      by simp
    show ?thesis using hidden idle(2) o(1,2,3) lst stay by simp
  qed
  show ?thesis
    using tm dwa ida late by simp
qed


lemma program_reachable_desk: "program_reachable desk"
  unfolding desk_def by (intro program_reachable.do_open program_reachable.boot)

theorem layer_order_invariant_witness:
  "program_reachable (advance 400 (minimizeWindow 0 desk)) \<and>
   \<not> popup_visible (advance 400 (minimizeWindow 0 desk)) \<and>
   visible_ids (advance 400 (minimizeWindow 0 desk)) = [''projects''] \<and>
   windowLayerOrder (advance 400 (minimizeWindow 0 desk)) = [''about'', ''projects''] \<and>
   windowLayerOrder (recalculateWindowLayers (advance 400 (minimizeWindow 0 desk))) = [''projects''] \<and>
   visible_ids (recalculateWindowLayers (advance 400 (minimizeWindow 0 desk))) = [''projects''] \<and>
   count_list (windowLayerOrder (recalculateWindowLayers (advance 400 (minimizeWindow 0 desk))))
     ''projects'' = 1"
proof -
  let ?s = "advance 400 (minimizeWindow 0 desk)"
  have r: "program_reachable ?s"
    by (intro program_reachable.do_time program_reachable.do_minimize program_reachable_desk)
  have e: "\<not> popup_visible ?s" "visible_ids ?s = [''projects'']"
    "windowLayerOrder ?s = [''about'', ''projects'']"
    "windowLayerOrder (recalculateWindowLayers ?s) = [''projects'']"
    "visible_ids (recalculateWindowLayers ?s) = [''projects'']"
    by code_simp+
  from layer_order_invariant [of ?s] r e(1)
  have "\<forall>w \<in> set (visible_ids (recalculateWindowLayers ?s)).
          count_list (windowLayerOrder (recalculateWindowLayers ?s)) w = 1"
    by blast
  then have "count_list (windowLayerOrder (recalculateWindowLayers ?s)) ''projects'' = 1"
    unfolding e(5) by simp
  with r e show ?thesis by simp
qed

text \<open>
  C1 as stated fails: open the notebook, minimize it and let the 400ms pass. No window is
  visible, and the layer order still holds \<open>about\<close>.
\<close>

theorem layer_order_counterexample:
  "program_reachable (advance 400 (minimizeWindow 0 (openWindow ''about'' (initial_state two_windows)))) \<and>
   visible_ids (advance 400 (minimizeWindow 0 (openWindow ''about'' (initial_state two_windows)))) = [] \<and>
   windowLayerOrder (advance 400 (minimizeWindow 0 (openWindow ''about'' (initial_state two_windows))))
     = [''about'']"
proof -
  have "program_reachable
      (advance 400 (minimizeWindow 0 (openWindow ''about'' (initial_state two_windows))))"
    by (intro program_reachable.do_time program_reachable.do_minimize program_reachable.do_open
        program_reachable.boot)
  moreover have
    "visible_ids (advance 400 (minimizeWindow 0 (openWindow ''about'' (initial_state two_windows)))) = []"
    "windowLayerOrder (advance 400 (minimizeWindow 0 (openWindow ''about'' (initial_state two_windows))))
       = [''about'']"
    by code_simp+
  ultimately show ?thesis by simp
qed

text \<open>
  C2 as stated fails for a recalculation called while a popup is visible: with the
  notebook and the projects window open and a popup showing, focusing the notebook moves
  it to the front of the layer order, the recalculation returns at its guard, and the
  projects window at position 0 keeps the z-index 100010 above the notebook's 100000 at
  position 1.
\<close>

theorem monotonic_z_index_counterexample:
  "program_reachable (focusWindow 0 (desk\<lparr>popup_visible := True\<rparr>)) \<and>
   windowLayerOrder (recalculateWindowLayers (focusWindow 0 (desk\<lparr>popup_visible := True\<rparr>)))
     = [''projects'', ''about''] \<and>
   zIndex_of (recalculateWindowLayers (focusWindow 0 (desk\<lparr>popup_visible := True\<rparr>))) ''projects''
     = Some 100010 \<and>
   zIndex_of (recalculateWindowLayers (focusWindow 0 (desk\<lparr>popup_visible := True\<rparr>))) ''about''
     = Some 100000"
proof -
  have "program_reachable (focusWindow 0 (desk\<lparr>popup_visible := True\<rparr>))"
    by (intro program_reachable.do_focus program_reachable.do_popup program_reachable_desk)
  moreover have
    "windowLayerOrder (recalculateWindowLayers (focusWindow 0 (desk\<lparr>popup_visible := True\<rparr>)))
       = [''projects'', ''about'']"
    "zIndex_of (recalculateWindowLayers (focusWindow 0 (desk\<lparr>popup_visible := True\<rparr>))) ''projects''
       = Some 100010"
    "zIndex_of (recalculateWindowLayers (focusWindow 0 (desk\<lparr>popup_visible := True\<rparr>))) ''about''
       = Some 100000"
    by code_simp+
  ultimately show ?thesis by simp
qed

theorem minimize_without_suppression_witness:
  "reachable True desk \<and>
   querySelector_data_window ''about'' (document desk) = Some 0 \<and>
   visible_ids (minimizeWindow 0 desk) = [''about'', ''projects''] \<and>
   recentlyClosedWindows (minimizeWindow 0 desk) = [] \<and>
   (400::nat) \<le> 450 \<and>
   visible_ids (advance 450 (minimizeWindow 0 desk)) = [''projects''] \<and>
   length (document (advance 450 (minimizeWindow 0 desk))) = 2 \<and>
   recentlyClosedWindows (advance 450 (minimizeWindow 0 desk)) = [] \<and>
   visible_ids (openWindow ''about'' (advance 450 (minimizeWindow 0 desk))) = [''about'', ''projects''] \<and>
   windowLayerOrder (openWindow ''about'' (advance 450 (minimizeWindow 0 desk)))
     = [''projects'', ''about''] \<and>
   has_class ''active'' (document (openWindow ''about'' (advance 450 (minimizeWindow 0 desk))) ! 0) \<and>
   has_class ''active''
     (document (advance 1000 (openWindow ''about'' (advance 450 (minimizeWindow 0 desk)))) ! 0) \<and>
   visible_ids (advance 1000 (openWindow ''about'' (advance 450 (minimizeWindow 0 desk))))
     = [''about'', ''projects'']"
proof -
  have r: "reachable True desk" by (rule reachable_desk)
  have q: "querySelector_data_window ''about'' (document desk) = Some 0" by code_simp
  have a: "has_class ''active'' (document (openWindow ''about'' (advance 450 (minimizeWindow 0 desk))) ! 0)"
    "has_class ''active''
       (document (advance 1000 (openWindow ''about'' (advance 450 (minimizeWindow 0 desk)))) ! 0)"
    using minimize_without_suppression [OF r q, of 450 1000] by simp_all
  have e: "visible_ids (minimizeWindow 0 desk) = [''about'', ''projects'']"
    "recentlyClosedWindows (minimizeWindow 0 desk) = []"
    "visible_ids (advance 450 (minimizeWindow 0 desk)) = [''projects'']"
    "length (document (advance 450 (minimizeWindow 0 desk))) = 2"
    "recentlyClosedWindows (advance 450 (minimizeWindow 0 desk)) = []"
    "visible_ids (openWindow ''about'' (advance 450 (minimizeWindow 0 desk))) = [''about'', ''projects'']"
    "windowLayerOrder (openWindow ''about'' (advance 450 (minimizeWindow 0 desk)))
       = [''projects'', ''about'']"
    "visible_ids (advance 1000 (openWindow ''about'' (advance 450 (minimizeWindow 0 desk))))
       = [''about'', ''projects'']"
    by code_simp+
  show ?thesis using r q a e by simp
qed

text \<open>
  C9 as stated fails for an open issued before the window is hidden: minimize the notebook,
  open it again 100ms later (it is still shown, so the open only focuses it), and 300ms
  after that the timer of the minimize, which nothing cancels, hides it.
\<close>

theorem minimize_without_suppression_counterexample:
  "reachable True (advance 300 (openWindow ''about'' (advance 100 (minimizeWindow 0 desk)))) \<and>
   clock (advance 100 (minimizeWindow 0 desk)) = 100 \<and>
   recentlyClosedWindows (advance 100 (minimizeWindow 0 desk)) = [] \<and>
   visible_ids (openWindow ''about'' (advance 100 (minimizeWindow 0 desk))) = [''about'', ''projects''] \<and>
   clock (advance 300 (openWindow ''about'' (advance 100 (minimizeWindow 0 desk)))) = 400 \<and>
   timers (advance 300 (openWindow ''about'' (advance 100 (minimizeWindow 0 desk)))) = [] \<and>
   visible_ids (advance 300 (openWindow ''about'' (advance 100 (minimizeWindow 0 desk))))
     = [''projects''] \<and>
   activeWindows (advance 300 (openWindow ''about'' (advance 100 (minimizeWindow 0 desk))))
     = [Some ''projects''] \<and>
   \<not> has_class ''active''
       (document (advance 300 (openWindow ''about'' (advance 100 (minimizeWindow 0 desk)))) ! 0)"
proof -
  have "reachable True (advance 300 (openWindow ''about'' (advance 100 (minimizeWindow 0 desk))))"
    by (intro reachable.op_time reachable.op_open reachable.op_minimize reachable_desk TrueI)
  moreover have
    "clock (advance 100 (minimizeWindow 0 desk)) = 100"
    "recentlyClosedWindows (advance 100 (minimizeWindow 0 desk)) = []"
    "visible_ids (openWindow ''about'' (advance 100 (minimizeWindow 0 desk))) = [''about'', ''projects'']"
    "clock (advance 300 (openWindow ''about'' (advance 100 (minimizeWindow 0 desk)))) = 400"
    "timers (advance 300 (openWindow ''about'' (advance 100 (minimizeWindow 0 desk)))) = []"
    "visible_ids (advance 300 (openWindow ''about'' (advance 100 (minimizeWindow 0 desk))))
       = [''projects'']"
    "activeWindows (advance 300 (openWindow ''about'' (advance 100 (minimizeWindow 0 desk))))
       = [Some ''projects'']"
    "\<not> has_class ''active''
       (document (advance 300 (openWindow ''about'' (advance 100 (minimizeWindow 0 desk)))) ! 0)"
    by code_simp+
  ultimately show ?thesis by simp
qed

end
